theory Spec2Isabelle
  imports Main
begin

section \<open>Values, errors and dictionaries\<close>

text \<open>
  The router of \<^verbatim>\<open>ice.py\<close> hands a callback positional and keyword arguments that
  are Python strings, Python integers (wildcards of an integer type) or \<^verbatim>\<open>None\<close> (a
  regular-expression group that took no part in the match). Strings are lists of
  characters with code points below 256; integers are unbounded.
\<close>

datatype pyval = PStr string | PInt int | PNone

text \<open>
  \<^verbatim>\<open>RouteError\<close> is raised with one of two messages,
  \<^verbatim>\<open>'Invalid wildcard name {!r} in {!r}'.format(self.name, spec)\<close> and
  \<^verbatim>\<open>'Invalid wildcard type {!r} in {!r}'.format(self._type, spec)\<close>; the model keeps
  the message template and its two arguments. The other constructors are the exceptions
  of the Python library that the modelled code could meet.
\<close>

datatype route_message =
    Invalid_wildcard_name string string
  | Invalid_wildcard_type string string

datatype error =
    RouteError route_message
  | ReError
  | ValueError
  | TypeError
  | IndexError
  | KeyError

text \<open>
  A keyword-argument dictionary keeps insertion order; assigning to a key that is
  present replaces its value in place, assigning to a new key appends it.
\<close>

type_synonym kwargs = "(string \<times> pyval) list"

fun dict_set :: "('k \<times> 'v) list \<Rightarrow> 'k \<Rightarrow> 'v \<Rightarrow> ('k \<times> 'v) list" where
  "dict_set [] k v = [(k, v)]"
| "dict_set ((k', v') # kvs) k v =
     (if k' = k then (k, v) # kvs else (k', v') # dict_set kvs k v)"

definition startswith :: "string \<Rightarrow> string \<Rightarrow> bool" where
  "startswith s p = (take (length p) s = p)"

definition endswith :: "string \<Rightarrow> string \<Rightarrow> bool" where
  "endswith s p = (drop (length s - length p) s = p \<and> length p \<le> length s)"

section \<open>The regular expressions of Python's re module\<close>

text \<open>
  The module \<^verbatim>\<open>re\<close> is Python's library, not code of the repository. The part of it
  that the router's own patterns use is modelled by a syntax tree and a backtracking
  matcher: literal characters, character classes, the greedy quantifiers on a class,
  the optional item, concatenation, alternation (left alternative first), capturing
  groups numbered by their opening parenthesis, and the anchors \<^verbatim>\<open>^\<close> and \<^verbatim>\<open>$\<close>
  without the MULTILINE flag.
\<close>

datatype citem =
    CChr char
  | CRange char char
  | CWord
  | CDigit
  | CNotWord
  | CNotDigit

datatype cclass =
    Dot
  | Set "citem list"
  | NotSet "citem list"

datatype rx =
    Lit string
  | One cclass
  | Star cclass
  | Plus cclass
  | Opt rx
  | Seq rx rx
  | Alt rx rx
  | Group "string option" rx
  | Bol
  | Eol

definition ord :: "char \<Rightarrow> nat" where
  "ord c = of_char c"

text \<open>\<^verbatim>\<open>\d\<close> and \<^verbatim>\<open>\w\<close> of a str pattern, on the code points below 256.\<close>

definition is_digit :: "char \<Rightarrow> bool" where
  "is_digit c = (48 \<le> ord c \<and> ord c \<le> 57)"

definition is_word :: "char \<Rightarrow> bool" where
  "is_word c =
     (let n = ord c in
        (48 \<le> n \<and> n \<le> 57) \<or> (65 \<le> n \<and> n \<le> 90) \<or> n = 95 \<or> (97 \<le> n \<and> n \<le> 122)
        \<or> n = 170 \<or> n = 178 \<or> n = 179 \<or> n = 181 \<or> n = 185 \<or> n = 186
        \<or> (188 \<le> n \<and> n \<le> 190) \<or> (192 \<le> n \<and> n \<le> 214)
        \<or> (216 \<le> n \<and> n \<le> 246) \<or> 248 \<le> n)"

fun citem_match :: "citem \<Rightarrow> char \<Rightarrow> bool" where
  "citem_match (CChr a) c = (c = a)"
| "citem_match (CRange lo hi) c = (ord lo \<le> ord c \<and> ord c \<le> ord hi)"
| "citem_match CWord c = is_word c"
| "citem_match CDigit c = is_digit c"
| "citem_match CNotWord c = (\<not> is_word c)"
| "citem_match CNotDigit c = (\<not> is_digit c)"

fun cclass_match :: "cclass \<Rightarrow> char \<Rightarrow> bool" where
  "cclass_match Dot c = (c \<noteq> CHR ''\<newline>'')"
| "cclass_match (Set items) c = list_ex (\<lambda>i. citem_match i c) items"
| "cclass_match (NotSet items) c = (\<not> list_ex (\<lambda>i. citem_match i c) items)"

fun ngroups :: "rx \<Rightarrow> nat" where
  "ngroups (Lit l) = 0"
| "ngroups (One cl) = 0"
| "ngroups (Star cl) = 0"
| "ngroups (Plus cl) = 0"
| "ngroups (Opt r) = ngroups r"
| "ngroups (Seq r1 r2) = ngroups r1 + ngroups r2"
| "ngroups (Alt r1 r2) = ngroups r1 + ngroups r2"
| "ngroups (Group name r) = Suc (ngroups r)"
| "ngroups Bol = 0"
| "ngroups Eol = 0"

text \<open>The names of the named groups with their numbers (\<^verbatim>\<open>groupindex\<close>); \<open>g\<close> counts
  the groups opened to the left.\<close>

fun group_names :: "rx \<Rightarrow> nat \<Rightarrow> (string \<times> nat) list" where
  "group_names (Opt r) g = group_names r g"
| "group_names (Seq r1 r2) g = group_names r1 g @ group_names r2 (g + ngroups r1)"
| "group_names (Alt r1 r2) g = group_names r1 g @ group_names r2 (g + ngroups r1)"
| "group_names (Group name r) g =
     (case name of None \<Rightarrow> [] | Some nm \<Rightarrow> [(nm, Suc g)]) @ group_names r (Suc g)"
| "group_names r g = []"

text \<open>
  A greedy quantifier on a character class takes the longest run first and gives
  characters back one at a time: \<open>star_cands p t\<close> lists what is left of \<open>t\<close> in the
  order the matcher tries.
\<close>

fun star_cands :: "(char \<Rightarrow> bool) \<Rightarrow> string \<Rightarrow> string list" where
  "star_cands p [] = [[]]"
| "star_cands p (x # xs) = (if p x then star_cands p xs @ [x # xs] else [x # xs])"

type_synonym caps = "nat \<Rightarrow> string option"

text \<open>
  \<open>bt r g n t c\<close> runs \<open>r\<close> on the rest \<open>t\<close> of a subject of length \<open>n\<close>, with \<open>g\<close> groups
  opened to the left and the captures \<open>c\<close> so far. It returns every way to match, in
  the order backtracking explores them, each as what is left of the subject and the
  captures. \<^verbatim>\<open>$\<close> matches at the end of the subject and before a newline that ends it.
\<close>

fun bt :: "rx \<Rightarrow> nat \<Rightarrow> nat \<Rightarrow> string \<Rightarrow> caps \<Rightarrow> (string \<times> caps) list" where
  "bt (Lit l) g n t c = (if take (length l) t = l then [(drop (length l) t, c)] else [])"
| "bt (One cl) g n t c =
     (case t of [] \<Rightarrow> [] | x # xs \<Rightarrow> if cclass_match cl x then [(xs, c)] else [])"
| "bt (Star cl) g n t c = map (\<lambda>t'. (t', c)) (star_cands (cclass_match cl) t)"
| "bt (Plus cl) g n t c =
     (case t of [] \<Rightarrow> []
      | x # xs \<Rightarrow> if cclass_match cl x
                  then map (\<lambda>t'. (t', c)) (star_cands (cclass_match cl) xs) else [])"
| "bt (Opt r) g n t c = bt r g n t c @ [(t, c)]"
| "bt (Seq r1 r2) g n t c =
     concat (map (\<lambda>(t', c'). bt r2 (g + ngroups r1) n t' c') (bt r1 g n t c))"
| "bt (Alt r1 r2) g n t c = bt r1 g n t c @ bt r2 (g + ngroups r1) n t c"
| "bt (Group name r) g n t c =
     map (\<lambda>(t', c'). (t', c'(Suc g \<mapsto> take (length t - length t') t)))
         (bt r (Suc g) n t c)"
| "bt Bol g n t c = (if length t = n then [(t, c)] else [])"
| "bt Eol g n t c = (if t = [] \<or> t = [CHR ''\<newline>''] then [(t, c)] else [])"

text \<open>
  \<^verbatim>\<open>search\<close> tries the start positions from left to right and keeps the first way to
  match at the first position that has one. \<open>search_at r n t\<close> returns the number of
  characters of \<open>t\<close> skipped before the match, the length of the match and the captures.
\<close>

fun search_at :: "rx \<Rightarrow> nat \<Rightarrow> string \<Rightarrow> (nat \<times> nat \<times> caps) option" where
  "search_at r n [] =
     (case bt r 0 n [] Map.empty of (t', c) # _ \<Rightarrow> Some (0, 0, c) | [] \<Rightarrow> None)"
| "search_at r n (x # t2) =
     (case bt r 0 n (x # t2) Map.empty of
        (t', c) # _ \<Rightarrow> Some (0, length (x # t2) - length t', c)
      | [] \<Rightarrow> map_option (\<lambda>(i, k, c). (Suc i, k, c)) (search_at r n t2))"

text \<open>The match object: group 0 is the whole match, group \<open>i\<close> the capture \<open>i\<close>.\<close>

definition rx_search :: "rx \<Rightarrow> string \<Rightarrow> caps option" where
  "rx_search r s =
     map_option (\<lambda>(i, k, c). c(0 \<mapsto> take k (drop i s))) (search_at r (length s) s)"

text \<open>A pattern accepts a string when some way to match it uses the string up.\<close>

definition rx_accepts :: "rx \<Rightarrow> string \<Rightarrow> bool" where
  "rx_accepts r s = list_ex (\<lambda>(t', c'). t' = []) (bt r 0 (length s) s Map.empty)"

text \<open>
  \<^verbatim>\<open>findall\<close> of a pattern with no group: the matches from left to right, none
  overlapping. The model is for patterns that match no empty string, as the tokenizer's
  pattern: after an empty match it moves on by one character.
\<close>

function findall_at :: "rx \<Rightarrow> nat \<Rightarrow> string \<Rightarrow> string list" where
  "findall_at r n t =
     (if t = [] then []
      else case search_at r n t of
             None \<Rightarrow> []
           | Some (i, k, c) \<Rightarrow> take k (drop i t) # findall_at r n (drop (i + max k 1) t))"
  by pat_completeness auto
termination
  by (relation "measure (\<lambda>(r, n, t). length t)")
     (auto simp del: search_at.simps simp: max_def)

definition rx_findall :: "rx \<Rightarrow> string \<Rightarrow> string list" where
  "rx_findall r s = findall_at r (length s) s"

text \<open>
  A compiled pattern supplied by the application (the regex tier) can use all of
  Python's syntax, so it is kept abstract: what \<^verbatim>\<open>search\<close> returns on a path (the match
  object as its \<^verbatim>\<open>group\<close> function, \<open>None\<close> for a group that took no part), the number
  of groups and the named groups with their numbers, in the order of \<^verbatim>\<open>groupindex\<close>.
\<close>

record re_pattern =
  re_search :: "string \<Rightarrow> caps option"
  re_groups :: nat
  re_groupindex :: "(string \<times> nat) list"

definition rx_compile :: "rx \<Rightarrow> re_pattern" where
  "rx_compile r =
     \<lparr>re_search = rx_search r, re_groups = ngroups r, re_groupindex = group_names r 0\<rparr>"

section \<open>Integer conversion\<close>

text \<open>
  \<^verbatim>\<open>int(value)\<close> on a str, base ten. The model accepts an optional sign followed by
  one or more of the digits 0 to 9, which covers every string the wildcard fragments
  can capture. Python accepts a few more spellings (surrounding white space, single
  underscores between digits, other decimal digits of Unicode); the model answers
  \<open>None\<close>, the \<^verbatim>\<open>ValueError\<close>, on those, so it raises wherever Python does.

  Integers are unbounded, but the conversion is not total on numerals: CPython (3.11
  and later, and the security releases of 3.7 to 3.10) raises \<^verbatim>\<open>ValueError\<close> when
  the string has more digits than \<^verbatim>\<open>sys.get_int_max_str_digits()\<close>, leading zeros
  counted and the sign not. The limit is 4300 unless the application changes it, and
  \<^verbatim>\<open>ice.py\<close> never does.
\<close>

definition int_max_str_digits :: nat where
  "int_max_str_digits = 4300"

definition digit_value :: "char \<Rightarrow> nat" where
  "digit_value c = ord c - 48"

definition digits_value :: "string \<Rightarrow> nat" where
  "digits_value ds = foldl (\<lambda>a c. 10 * a + digit_value c) 0 ds"

definition decimal :: "string \<Rightarrow> nat option" where
  "decimal ds =
     (if ds \<noteq> [] \<and> list_all is_digit ds \<and> length ds \<le> int_max_str_digits
      then Some (digits_value ds) else None)"

fun py_int :: "string \<Rightarrow> int option" where
  "py_int [] = None"
| "py_int (c # cs) =
     (if c = CHR ''-'' then map_option (\<lambda>k. - int k) (decimal cs)
      else if c = CHR ''+'' then map_option int (decimal cs)
      else map_option int (decimal (c # cs)))"

text \<open>The canonical decimal rendering of an integer, \<^verbatim>\<open>str(n)\<close>.\<close>

definition digit_char :: "nat \<Rightarrow> char" where
  "digit_char d = char_of (48 + d)"

fun digits_of :: "nat \<Rightarrow> string" where
  "digits_of k =
     (if k < 10 then [digit_char k] else digits_of (k div 10) @ [digit_char (k mod 10)])"

definition py_str :: "int \<Rightarrow> string" where
  "py_str i = (if i < 0 then CHR ''-'' # digits_of (nat (- i)) else digits_of (nat i))"

section \<open>Wildcard\<close>

record wildcard =
  wname :: string
  wtype :: string

definition d19 :: cclass where
  "d19 = Set [CRange CHR ''1'' CHR ''9'']"

definition d09 :: cclass where
  "d09 = Set [CRange CHR ''0'' CHR ''9'']"

text \<open>\<^verbatim>\<open>Wildcard._types_re\<close>, each fragment as its syntax tree.\<close>

definition types_re :: "(string \<times> rx) list" where
  "types_re =
     [(''str'', Group None (Plus (NotSet [CChr CHR ''/'']))),
      (''path'', Group None (Plus Dot)),
      (''int'', Group None (Alt (Lit ''0'') (Seq (One d19) (Star d09)))),
      (''+int'', Group None (Seq (One d19) (Star d09))),
      (''-int'', Group None (Alt (Lit ''0'') (Seq (Opt (Lit ''-'')) (Seq (One d19) (Star d09)))))]"

text \<open>\<^verbatim>\<open>Wildcard._name_re\<close>, \<^verbatim>\<open>^(?:[^\d\W]\w*|!|)$\<close>.\<close>

definition name_re :: rx where
  "name_re =
     Seq Bol
      (Seq (Alt (Seq (One (NotSet [CDigit, CNotWord])) (Star (Set [CWord])))
                (Alt (Lit ''!'') (Lit [])))
           Eol)"

text \<open>\<^verbatim>\<open>s.split(sep, 1)\<close>: at most one split, at the first separator.\<close>

definition str_split1 :: "char \<Rightarrow> string \<Rightarrow> string list" where
  "str_split1 sep s =
     (if sep \<in> set s
      then [takeWhile (\<lambda>c. c \<noteq> sep) s, tl (dropWhile (\<lambda>c. c \<noteq> sep) s)]
      else [s])"

definition Wildcard_init :: "string \<Rightarrow> error + wildcard" where
  "Wildcard_init spec =
     (let tokens = str_split1 CHR '':'' (butlast (tl spec));
          tokens = (if length tokens = 1 then tokens @ [[]] else tokens);
          nm = tokens ! 0;
          ty = tokens ! 1;
          ty = (if ty = [] then ''str'' else ty)
      in if rx_search name_re nm = None
         then Inl (RouteError (Invalid_wildcard_name nm spec))
         else if ty \<notin> set (map fst types_re)
         then Inl (RouteError (Invalid_wildcard_type ty spec))
         else Inr \<lparr>wname = nm, wtype = ty\<rparr>)"

definition Wildcard_regex :: "wildcard \<Rightarrow> error + rx" where
  "Wildcard_regex w =
     (case map_of types_re (wtype w) of None \<Rightarrow> Inl KeyError | Some r \<Rightarrow> Inr r)"

text \<open>
  \<^verbatim>\<open>Wildcard.value\<close>: the captured group as it is for the types str and path,
  \<^verbatim>\<open>int(value)\<close> otherwise. A group that took no part in the match is \<^verbatim>\<open>None\<close>, on
  which \<^verbatim>\<open>int\<close> raises \<^verbatim>\<open>TypeError\<close>; a string that \<^verbatim>\<open>int\<close> refuses, for its
  spelling or for the number of its digits, raises \<^verbatim>\<open>ValueError\<close>.
\<close>

definition Wildcard_value :: "wildcard \<Rightarrow> string option \<Rightarrow> error + pyval" where
  "Wildcard_value w v =
     (if wtype w \<in> set [''str'', ''path'']
      then Inr (case v of None \<Rightarrow> PNone | Some s \<Rightarrow> PStr s)
      else (case v of
              None \<Rightarrow> Inl TypeError
            | Some s \<Rightarrow> (case py_int s of None \<Rightarrow> Inl ValueError | Some i \<Rightarrow> Inr (PInt i))))"

section \<open>Routes\<close>

type_synonym 'cb callback_data = "'cb \<times> pyval list \<times> kwargs"

datatype 'cb route =
    WildcardRoute rx "wildcard list" 'cb
  | RegexRoute re_pattern 'cb

text \<open>\<^verbatim>\<open>WildcardRoute._wildcard_re\<close> and \<^verbatim>\<open>WildcardRoute._tokenize_re\<close>.\<close>

definition not_angle_slash :: cclass where
  "not_angle_slash = NotSet [CChr CHR ''<'', CChr CHR ''>'', CChr CHR ''/'']"

definition wildcard_re :: rx where
  "wildcard_re = Seq (Lit ''<'') (Seq (Star not_angle_slash) (Lit ''>''))"

definition tokenize_re :: rx where
  "tokenize_re =
     Alt (Seq (Lit ''<'') (Seq (Star not_angle_slash) (Lit ''>'')))
         (Alt (Plus not_angle_slash) (Alt (Lit ''/'') (Alt (Lit ''<'') (Lit ''>''))))"

definition WildcardRoute_like :: "string \<Rightarrow> bool" where
  "WildcardRoute_like pattern = (rx_search wildcard_re pattern \<noteq> None)"

definition WildcardRoute_tokens :: "string \<Rightarrow> string list" where
  "WildcardRoute_tokens pattern = rx_findall tokenize_re pattern"

text \<open>
  The loop of \<^verbatim>\<open>WildcardRoute.__init__\<close> over the tokens: a wildcard token adds its
  wildcard and the fragment of its type, any other token adds itself escaped, that is
  as literal characters; the first invalid wildcard raises.
\<close>

fun compile_tokens :: "string list \<Rightarrow> error + (rx list \<times> wildcard list)" where
  "compile_tokens [] = Inr ([], [])"
| "compile_tokens (token # rest) =
     (if token \<noteq> [] \<and> startswith token ''<'' \<and> endswith token ''>''
      then (case Wildcard_init token of
              Inl e \<Rightarrow> Inl e
            | Inr w \<Rightarrow>
               (case Wildcard_regex w of
                  Inl e \<Rightarrow> Inl e
                | Inr fragment \<Rightarrow>
                   (case compile_tokens rest of
                      Inl e \<Rightarrow> Inl e
                    | Inr (res, ws) \<Rightarrow> Inr (fragment # res, w # ws))))
      else (case compile_tokens rest of
              Inl e \<Rightarrow> Inl e
            | Inr (res, ws) \<Rightarrow> Inr (Lit token # res, ws)))"

text \<open>\<^verbatim>\<open>re.compile('^' + ''.join(self._re) + '$')\<close>.\<close>

definition anchored :: "rx list \<Rightarrow> rx" where
  "anchored res = Seq Bol (Seq (foldr Seq res (Lit [])) Eol)"

definition WildcardRoute_init :: "string \<Rightarrow> 'cb \<Rightarrow> error + 'cb route" where
  "WildcardRoute_init pattern callback =
     (case compile_tokens (WildcardRoute_tokens pattern) of
        Inl e \<Rightarrow> Inl e
      | Inr (res, ws) \<Rightarrow> Inr (WildcardRoute (anchored res) ws callback))"

text \<open>\<^verbatim>\<open>match.groups()\<close>: the groups from 1 to the number of groups of the pattern.\<close>

definition match_groups :: "nat \<Rightarrow> caps \<Rightarrow> string option list" where
  "match_groups k m = map m [1..<Suc k]"

definition tuple_get :: "'a list \<Rightarrow> nat \<Rightarrow> error + 'a" where
  "tuple_get xs i = (if i < length xs then Inr (xs ! i) else Inl IndexError)"

text \<open>The loop of \<^verbatim>\<open>WildcardRoute.match\<close> over \<^verbatim>\<open>enumerate(self._wildcards)\<close>.\<close>

fun collect ::
  "(nat \<times> wildcard) list \<Rightarrow> string option list \<Rightarrow> pyval list \<Rightarrow> kwargs
     \<Rightarrow> error + (pyval list \<times> kwargs)" where
  "collect [] gs args kwargs = Inr (args, kwargs)"
| "collect ((i, w) # rest) gs args kwargs =
     (if wname w = ''!'' then collect rest gs args kwargs
      else (case tuple_get gs i of
              Inl e \<Rightarrow> Inl e
            | Inr v \<Rightarrow>
               (case Wildcard_value w v of
                  Inl e \<Rightarrow> Inl e
                | Inr val \<Rightarrow>
                   if wname w = [] then collect rest gs (args @ [val]) kwargs
                   else collect rest gs args (dict_set kwargs (wname w) val))))"

definition WildcardRoute_match ::
  "rx \<Rightarrow> wildcard list \<Rightarrow> 'cb \<Rightarrow> string \<Rightarrow> error + 'cb callback_data option" where
  "WildcardRoute_match re ws callback path =
     (case rx_search re path of
        None \<Rightarrow> Inr None
      | Some m \<Rightarrow>
         (case collect (enumerate 0 ws) (match_groups (ngroups re) m) [] [] of
            Inl e \<Rightarrow> Inl e
          | Inr (args, kwargs) \<Rightarrow> Inr (Some (callback, args, kwargs))))"

text \<open>\<^verbatim>\<open>RegexRoute._group_re\<close>, \<^verbatim>\<open>\(.*\)\<close>.\<close>

definition group_re :: rx where
  "group_re = Seq (Lit ''('') (Seq (Star Dot) (Lit '')''))"

definition RegexRoute_like :: "string \<Rightarrow> bool" where
  "RegexRoute_like pattern = (rx_search group_re pattern \<noteq> None)"

text \<open>
  \<^verbatim>\<open>re.compile\<close> on the application's pattern is the parameter \<open>compile\<close>; it answers
  \<open>None\<close> where the library raises \<^verbatim>\<open>re.error\<close>.
\<close>

definition RegexRoute_init ::
  "(string \<Rightarrow> re_pattern option) \<Rightarrow> string \<Rightarrow> 'cb \<Rightarrow> error + 'cb route" where
  "RegexRoute_init compile pattern callback =
     (case compile pattern of None \<Rightarrow> Inl ReError | Some re \<Rightarrow> Inr (RegexRoute re callback))"

text \<open>\<^verbatim>\<open>match.group(i)\<close>: the substring the group matched, \<^verbatim>\<open>None\<close> if it took no part.\<close>

definition match_group :: "caps \<Rightarrow> nat \<Rightarrow> pyval" where
  "match_group m i = (case m i of None \<Rightarrow> PNone | Some s \<Rightarrow> PStr s)"

definition RegexRoute_match :: "re_pattern \<Rightarrow> 'cb \<Rightarrow> string \<Rightarrow> 'cb callback_data option" where
  "RegexRoute_match re callback path =
     (case re_search re path of
        None \<Rightarrow> None
      | Some m \<Rightarrow>
         (let kwargs_indexes = map snd (re_groupindex re);
              args_indexes = filter (\<lambda>i. i \<notin> set kwargs_indexes) [1..<re_groups re + 1];
              args = map (match_group m) args_indexes;
              kwargs = fold (\<lambda>(nm, index) kw. dict_set kw nm (match_group m index))
                            (re_groupindex re) []
          in Some (callback, args, kwargs)))"

fun route_match :: "'cb route \<Rightarrow> string \<Rightarrow> error + 'cb callback_data option" where
  "route_match (WildcardRoute re ws callback) path = WildcardRoute_match re ws callback path"
| "route_match (RegexRoute re callback) path = Inr (RegexRoute_match re callback path)"

section \<open>Router\<close>

text \<open>
  The three dictionaries of the router are \<^verbatim>\<open>collections.defaultdict\<close>s: reading
  \<^verbatim>\<open>d[method]\<close> for a method that is not a key stores the default under it.
\<close>

record 'cb router =
  literal :: "string \<rightharpoonup> (string \<rightharpoonup> 'cb)"
  wildcard :: "string \<rightharpoonup> 'cb route list"
  regex :: "string \<rightharpoonup> 'cb route list"

definition Router_init :: "'cb router" where
  "Router_init = \<lparr>literal = Map.empty, wildcard = Map.empty, regex = Map.empty\<rparr>"

definition dd_touch :: "('k \<rightharpoonup> 'v) \<Rightarrow> 'k \<Rightarrow> 'v \<Rightarrow> ('k \<rightharpoonup> 'v)" where
  "dd_touch d k dflt = (case d k of None \<Rightarrow> d(k \<mapsto> dflt) | Some v \<Rightarrow> d)"

definition dd_get :: "('k \<rightharpoonup> 'v) \<Rightarrow> 'k \<Rightarrow> 'v \<Rightarrow> 'v" where
  "dd_get d k dflt = (case d k of None \<Rightarrow> dflt | Some v \<Rightarrow> v)"

definition normalize_pattern :: "string \<Rightarrow> string \<times> string" where
  "normalize_pattern pattern =
     (if startswith pattern ''regex:'' then (''regex'', drop (length ''regex:'') pattern)
      else if startswith pattern ''wildcard:''
      then (''wildcard'', drop (length ''wildcard:'') pattern)
      else if startswith pattern ''literal:''
      then (''literal'', drop (length ''literal:'') pattern)
      else if RegexRoute_like pattern then (''regex'', pattern)
      else if WildcardRoute_like pattern then (''wildcard'', pattern)
      else (''literal'', pattern))"

text \<open>
  \<^verbatim>\<open>Router.add\<close> returns the exception it raised, if any, and the router as the call
  left it. In \<^verbatim>\<open>self._wildcard[method].append(WildcardRoute(pat, callback))\<close> Python
  evaluates \<^verbatim>\<open>self._wildcard[method]\<close> before the argument of \<^verbatim>\<open>append\<close>, so the
  entry of the method exists when the constructor raises; the same holds for the regex
  dictionary.
\<close>

definition Router_add ::
  "(string \<Rightarrow> re_pattern option) \<Rightarrow> 'cb router \<Rightarrow> string \<Rightarrow> string \<Rightarrow> 'cb
     \<Rightarrow> error option \<times> 'cb router" where
  "Router_add compile r method pattern callback =
     (let (pat_type, pat) = normalize_pattern pattern in
      if pat_type = ''literal''
      then (let d = dd_touch (literal r) method Map.empty
            in (None, r\<lparr>literal := d(method \<mapsto> (dd_get d method Map.empty)(pat \<mapsto> callback))\<rparr>))
      else if pat_type = ''wildcard''
      then (let d = dd_touch (wildcard r) method []
            in case WildcardRoute_init pat callback of
                 Inl e \<Rightarrow> (Some e, r\<lparr>wildcard := d\<rparr>)
               | Inr route \<Rightarrow>
                   (None, r\<lparr>wildcard := d(method \<mapsto> dd_get d method [] @ [route])\<rparr>))
      else (let d = dd_touch (regex r) method []
            in case RegexRoute_init compile pat callback of
                 Inl e \<Rightarrow> (Some e, r\<lparr>regex := d\<rparr>)
               | Inr route \<Rightarrow>
                   (None, r\<lparr>regex := d(method \<mapsto> dd_get d method [] @ [route])\<rparr>)))"

text \<open>\<^verbatim>\<open>for route in reversed(route_dict[method])\<close>, on the reversed list.\<close>

fun scan :: "'cb route list \<Rightarrow> string \<Rightarrow> error + 'cb callback_data option" where
  "scan [] path = Inr None"
| "scan (route # rest) path =
     (case route_match route path of
        Inl e \<Rightarrow> Inl e
      | Inr None \<Rightarrow> scan rest path
      | Inr (Some callback_data) \<Rightarrow> Inr (Some callback_data))"

text \<open>\<^verbatim>\<open>for route_dict in (self._wildcard, self._regex)\<close>.\<close>

fun scan_dicts ::
  "(string \<rightharpoonup> 'cb route list) list \<Rightarrow> string \<Rightarrow> string \<Rightarrow> error + 'cb callback_data option" where
  "scan_dicts [] method path = Inr None"
| "scan_dicts (route_dict # rest) method path =
     (case route_dict method of
        None \<Rightarrow> scan_dicts rest method path
      | Some routes \<Rightarrow>
         (case scan (rev routes) path of
            Inl e \<Rightarrow> Inl e
          | Inr None \<Rightarrow> scan_dicts rest method path
          | Inr (Some callback_data) \<Rightarrow> Inr (Some callback_data)))"

definition Router_resolve_non_literal_route ::
  "'cb router \<Rightarrow> string \<Rightarrow> string \<Rightarrow> error + 'cb callback_data option" where
  "Router_resolve_non_literal_route r method path =
     scan_dicts [wildcard r, regex r] method path"

definition Router_resolve ::
  "'cb router \<Rightarrow> string \<Rightarrow> string \<Rightarrow> error + 'cb callback_data option" where
  "Router_resolve r method path =
     (if literal r method \<noteq> None \<and> dd_get (literal r) method Map.empty path \<noteq> None
      then Inr (Some (the (dd_get (literal r) method Map.empty path), [], []))
      else Router_resolve_non_literal_route r method path)"

text \<open>\<^verbatim>\<open>method in itertools.chain(self._literal, self._wildcard, self._regex)\<close>: the
  method is a key of one of the three dictionaries.\<close>

definition Router_contains_method :: "'cb router \<Rightarrow> string \<Rightarrow> bool" where
  "Router_contains_method r method =
     (method \<in> dom (literal r) \<or> method \<in> dom (wildcard r) \<or> method \<in> dom (regex r))"

section \<open>The languages of the wildcard types\<close>

text \<open>
  The decimal numeral of a positive integer: digits only, at least one, the first of
  them not a zero.
\<close>

definition nonzero_start :: "string \<Rightarrow> bool" where
  "nonzero_start s = (s \<noteq> [] \<and> list_all is_digit s \<and> hd s \<noteq> CHR ''0'')"

text \<open>The segments that the fragment of each wildcard type matches in full.\<close>

definition segment_language :: "string \<Rightarrow> string \<Rightarrow> bool" where
  "segment_language ty s =
     (if ty = ''str'' then s \<noteq> [] \<and> CHR ''/'' \<notin> set s
      else if ty = ''path'' then s \<noteq> [] \<and> CHR ''\<newline>'' \<notin> set s
      else if ty = ''int'' then s = ''0'' \<or> nonzero_start s
      else if ty = ''+int'' then nonzero_start s
      else if ty = ''-int''
      then s = ''0'' \<or> nonzero_start s \<or> (s \<noteq> [] \<and> hd s = CHR ''-'' \<and> nonzero_start (tl s))
      else False)"

text \<open>
  A pattern with no group and no anchor has a language \<open>P\<close>: its ways to match are
  the splits of the subject into a word of \<open>P\<close> and a rest, with the captures as
  they were.
\<close>

definition has_lang :: "rx \<Rightarrow> (string \<Rightarrow> bool) \<Rightarrow> bool" where
  "has_lang r P =
     (\<forall>g n t c. set (bt r g n t c) = {(t', c) | t' s. t = s @ t' \<and> P s})"

section \<open>An example application\<close>

text \<open>
  An instance of the parameter \<open>compile\<close> for the examples: it knows the syntax trees
  of the two raw patterns they use, \<^verbatim>\<open>/user/(.*)\<close> and
  \<^verbatim>\<open>/user/(?P<id>[0-9]+)/(.*)\<close>.
\<close>

definition user_files_re :: rx where
  "user_files_re =
     Seq (Lit ''/user/'')
         (Seq (Group (Some ''id'') (Plus d09)) (Seq (Lit ''/'') (Group None (Star Dot))))"

definition example_compile :: "string \<Rightarrow> re_pattern option" where
  "example_compile pattern =
     (if pattern = ''/user/(.*)''
      then Some (rx_compile (Seq (Lit ''/user/'') (Group None (Star Dot))))
      else if pattern = ''/user/(?P<id>[0-9]+)/(.*)''
      then Some (rx_compile user_files_re)
      else None)"

text \<open>
  Four routes for GET, registered in this order: the literal \<^verbatim>\<open>/user/me\<close>, the
  wildcard routes \<^verbatim>\<open>/user/<id>\<close> and \<^verbatim>\<open>/user/<id:int>\<close>, and the raw pattern.
\<close>

definition example_router :: "nat router" where
  "example_router =
     snd (Router_add example_compile
       (snd (Router_add example_compile
         (snd (Router_add example_compile
           (snd (Router_add example_compile Router_init ''GET'' ''/user/me'' 1))
           ''GET'' ''/user/<id>'' 2))
         ''GET'' ''/user/<id:int>'' 3))
       ''GET'' ''/user/(.*)'' 4)"

text \<open>The routers that calls of \<^verbatim>\<open>add\<close> build, whether a call raised or not.\<close>

inductive built :: "(string \<Rightarrow> re_pattern option) \<Rightarrow> 'cb router \<Rightarrow> bool"
  for compile :: "string \<Rightarrow> re_pattern option" where
  built_init: "built compile Router_init"
| built_add:
    "built compile r \<Longrightarrow> Router_add compile r method pattern callback = (e, r')
       \<Longrightarrow> built compile r'"

text \<open>The compiled patterns of the two wildcard routes of the example.\<close>

definition user_str :: rx where
  "user_str =
     anchored [Lit ''/'', Lit ''user'', Lit ''/'', Group None (Plus (NotSet [CChr CHR ''/'']))]"

definition user_int :: rx where
  "user_int =
     anchored [Lit ''/'', Lit ''user'', Lit ''/'',
               Group None (Alt (Lit ''0'') (Seq (One d19) (Star d09)))]"

section \<open>Notions of the specification\<close>

text \<open>A method's sequence of routes in one tier, in registration order.\<close>

definition routes_for :: "(string \<rightharpoonup> 'cb route list) \<Rightarrow> string \<Rightarrow> 'cb route list" where
  "routes_for d method = (case d method of None \<Rightarrow> [] | Some routes \<Rightarrow> routes)"


text \<open>
  The integer that a decimal numeral with an optional minus sign denotes, and the
  converted value of a captured segment: the segment itself for the types str and
  path, the integer it denotes for the other types.
\<close>

definition numeral_value :: "string \<Rightarrow> int" where
  "numeral_value s =
     (case s of
        [] \<Rightarrow> 0
      | c # cs \<Rightarrow> if c = CHR ''-'' then - int (digits_value cs) else int (digits_value s))"

definition converted :: "wildcard \<Rightarrow> string \<Rightarrow> pyval" where
  "converted w s =
     (if wtype w = ''str'' \<or> wtype w = ''path'' then PStr s else PInt (numeral_value s))"

text \<open>
  The results that the specification describes for a matching wildcard route, from
  the wildcards in capture order and the segments they captured: the positional list
  holds the converted values of the wildcards with the empty name, in order; the named
  mapping gives a name other than the empty one and \<^verbatim>\<open>!\<close> the converted value of the
  last wildcard of that name.
\<close>

definition positional :: "wildcard list \<Rightarrow> string list \<Rightarrow> pyval list" where
  "positional ws segs =
     map (\<lambda>(w, s). converted w s) (filter (\<lambda>(w, s). wname w = []) (zip ws segs))"

definition named :: "wildcard list \<Rightarrow> string list \<Rightarrow> string \<Rightarrow> pyval option" where
  "named ws segs nm =
     (if nm = [] \<or> nm = ''!'' then None
      else map_of (rev (map (\<lambda>(w, s). (wname w, converted w s)) (zip ws segs))) nm)"

text \<open>
  The number of digits of a segment, and the matches on which no conversion meets
  the limit of the interpreter: every wildcard that is converted to an integer, that
  is one not named \<^verbatim>\<open>!\<close> and of a type other than str and path, has captured at most
  \<open>int_max_str_digits\<close> digits.
\<close>

definition digit_count :: "string \<Rightarrow> nat" where
  "digit_count s = length (filter is_digit s)"

definition within_digit_limit :: "wildcard list \<Rightarrow> string list \<Rightarrow> bool" where
  "within_digit_limit ws segs =
     list_all (\<lambda>(w, s). wname w = ''!'' \<or> wtype w = ''str'' \<or> wtype w = ''path''
                         \<or> digit_count s \<le> int_max_str_digits)
              (zip ws segs)"

text \<open>
  The compiled pattern of the route \<^verbatim>\<open>/item/<n:int>\<close>, and a numeral of 4301 digits,
  one more than the limit.
\<close>

definition item_int :: rx where
  "item_int =
     anchored [Lit ''/'', Lit ''item'', Lit ''/'',
               Group None (Alt (Lit ''0'') (Seq (One d19) (Star d09)))]"

definition long_numeral :: string where
  "long_numeral = replicate 4301 CHR ''1''"

text \<open>A route as \<^verbatim>\<open>add\<close> constructs it.\<close>

definition compiled_route :: "'cb route \<Rightarrow> bool" where
  "compiled_route route =
     (case route of
        WildcardRoute re ws callback \<Rightarrow>
          (\<exists>tokens res. compile_tokens tokens = Inr (res, ws) \<and> re = anchored res)
      | RegexRoute re callback \<Rightarrow> True)"

text \<open>Every route of a tier is one that \<^verbatim>\<open>add\<close> constructed.\<close>

definition all_compiled :: "(string \<rightharpoonup> 'cb route list) \<Rightarrow> bool" where
  "all_compiled d = (\<forall>m rs route. d m = Some rs \<longrightarrow> route \<in> set rs \<longrightarrow> compiled_route route)"




text \<open>
  The names that the specification allows for a wildcard: the empty name, \<^verbatim>\<open>!\<close>, or
  an identifier, that is a word character other than a digit followed by word
  characters.
\<close>

definition valid_name :: "string \<Rightarrow> bool" where
  "valid_name s =
     (s = [] \<or> s = ''!''
      \<or> (s \<noteq> [] \<and> is_word (hd s) \<and> \<not> is_digit (hd s) \<and> list_all is_word (tl s)))"


text \<open>The routers that calls of \<^verbatim>\<open>add\<close> build when none of them raises.\<close>

inductive registered :: "(string \<Rightarrow> re_pattern option) \<Rightarrow> 'cb router \<Rightarrow> bool"
  for compile :: "string \<Rightarrow> re_pattern option" where
  registered_init: "registered compile Router_init"
| registered_add:
    "registered compile r \<Longrightarrow> Router_add compile r method pattern callback = (None, r')
       \<Longrightarrow> registered compile r'"

text \<open>No method is a key with nothing stored under it.\<close>

definition no_empty_entry :: "'cb router \<Rightarrow> bool" where
  "no_empty_entry r =
     ((\<forall>m d. literal r m = Some d \<longrightarrow> d \<noteq> Map.empty)
      \<and> (\<forall>m rs. wildcard r m = Some rs \<longrightarrow> rs \<noteq> [])
      \<and> (\<forall>m rs. regex r m = Some rs \<longrightarrow> rs \<noteq> []))"


section \<open>Properties of the matcher\<close>


lemma star_cands_iff:
  "t' \<in> set (star_cands p t) \<longleftrightarrow> (\<exists>s. t = s @ t' \<and> list_all p s)"
proof (induction t)
  case Nil
  then show ?case by auto
next
  case (Cons x xs)
  show ?case
  proof (cases "p x")
    case True
    then show ?thesis using Cons
      by (auto simp: Cons_eq_append_conv)
  next
    case False
    then show ?thesis
      by (auto simp: Cons_eq_append_conv)
  qed
qed

declare bt.simps [simp del]

lemma ord_zero: "(c = CHR ''0'') = (ord c = 48)"
proof -
  have "ord (CHR ''0'') = 48" by (simp add: ord_def)
  then show ?thesis
    by (metis ord_def of_char_eq_iff)
qed

lemma d09_match: "cclass_match d09 = is_digit"
  by (rule ext) (simp add: d09_def is_digit_def ord_def)

lemma d19_match: "cclass_match d19 = (\<lambda>c. is_digit c \<and> c \<noteq> CHR ''0'')"
  by (rule ext) (auto simp add: d19_def is_digit_def ord_zero, simp_all add: ord_def)

lemma set_bt_Lit:
  "set (bt (Lit l) g n t c) = {(t', c) | t'. t = l @ t'}"
proof -
  have "take (length l) t = l \<Longrightarrow> t = l @ drop (length l) t"
    by (metis append_take_drop_id)
  then show ?thesis by (auto simp: bt.simps)
qed

lemma set_bt_One:
  "set (bt (One cl) g n t c) = {(t', c) | t' x. t = x # t' \<and> cclass_match cl x}"
  by (cases t) (auto simp: bt.simps)

lemma set_bt_Star:
  "set (bt (Star cl) g n t c) = {(t', c) | t' s. t = s @ t' \<and> list_all (cclass_match cl) s}"
  by (auto simp: star_cands_iff bt.simps)

lemma set_bt_Plus:
  "set (bt (Plus cl) g n t c) =
     {(t', c) | t' s. t = s @ t' \<and> s \<noteq> [] \<and> list_all (cclass_match cl) s}"
  by (cases t) (auto simp: star_cands_iff Cons_eq_append_conv bt.simps)

lemma set_bt_Opt:
  "set (bt (Opt r) g n t c) = set (bt r g n t c) \<union> {(t, c)}"
  by (simp add: bt.simps)

lemma set_bt_Seq:
  "set (bt (Seq r1 r2) g n t c) =
     (\<Union>(t1, c1) \<in> set (bt r1 g n t c). set (bt r2 (g + ngroups r1) n t1 c1))"
  by (auto simp: bt.simps)

lemma set_bt_Alt:
  "set (bt (Alt r1 r2) g n t c) = set (bt r1 g n t c) \<union> set (bt r2 (g + ngroups r1) n t c)"
  by (simp add: bt.simps)

lemma set_bt_Group:
  "set (bt (Group nm r) g n t c) =
     (\<lambda>(t', c'). (t', c'(Suc g \<mapsto> take (length t - length t') t))) ` set (bt r (Suc g) n t c)"
  by (simp add: bt.simps)

lemmas set_bt = set_bt_Lit set_bt_One set_bt_Star set_bt_Plus set_bt_Opt set_bt_Seq set_bt_Alt
  set_bt_Group

lemma nonzero_start_simps:
  "nonzero_start [] = False"
  "nonzero_start (x # xs) = (is_digit x \<and> x \<noteq> CHR ''0'' \<and> list_all is_digit xs)"
  by (auto simp: nonzero_start_def)

lemma bt_posint_set:
  "set (bt (Seq (One d19) (Star d09)) g n t c) = {(t', c) | t' s. t = s @ t' \<and> nonzero_start s}"
  (is "?L = ?R")
proof
  show "?L \<subseteq> ?R"
    by (auto simp: set_bt d09_match d19_match)
       (metis nonzero_start_simps(2))
  show "?R \<subseteq> ?L"
  proof
    fix p assume "p \<in> ?R"
    then obtain t' s where p: "p = (t', c)" and t: "t = s @ t'" and s: "nonzero_start s" by auto
    from s obtain x xs where sx: "s = x # xs" by (cases s) (auto simp: nonzero_start_simps)
    with s t show "p \<in> ?L" unfolding p
      by (auto simp: set_bt d09_match d19_match nonzero_start_simps)
  qed
qed


lemma has_lang_Lit: "has_lang (Lit l) (\<lambda>s. s = l)"
  by (auto simp: has_lang_def set_bt_Lit)

lemma has_lang_One: "has_lang (One cl) (\<lambda>s. \<exists>x. s = [x] \<and> cclass_match cl x)"
  by (auto simp: has_lang_def set_bt_One)

lemma has_lang_Star: "has_lang (Star cl) (list_all (cclass_match cl))"
  by (auto simp: has_lang_def set_bt_Star)

lemma has_lang_Plus: "has_lang (Plus cl) (\<lambda>s. s \<noteq> [] \<and> list_all (cclass_match cl) s)"
  by (auto simp: has_lang_def set_bt_Plus)

lemma has_lang_Opt: "has_lang r P \<Longrightarrow> has_lang (Opt r) (\<lambda>s. P s \<or> s = [])"
  by (auto simp: has_lang_def set_bt_Opt)

lemma has_lang_Alt:
  "has_lang r1 P1 \<Longrightarrow> has_lang r2 P2 \<Longrightarrow> has_lang (Alt r1 r2) (\<lambda>s. P1 s \<or> P2 s)"
  by (auto simp: has_lang_def set_bt_Alt)

lemma has_lang_Seq:
  assumes "has_lang r1 P1" and "has_lang r2 P2"
  shows "has_lang (Seq r1 r2) (\<lambda>s. \<exists>s1 s2. s = s1 @ s2 \<and> P1 s1 \<and> P2 s2)"
  unfolding has_lang_def
proof (intro allI set_eqI iffI)
  fix g n :: nat and t :: string and c :: caps and x
  assume "x \<in> set (bt (Seq r1 r2) g n t c)"
  then obtain t1 c1 where 1: "(t1, c1) \<in> set (bt r1 g n t c)"
    and 2: "x \<in> set (bt r2 (g + ngroups r1) n t1 c1)"
    by (auto simp: set_bt_Seq)
  from 1 assms(1) obtain s1 where "c1 = c" "t = s1 @ t1" "P1 s1"
    by (auto simp: has_lang_def)
  moreover from 2 assms(2) obtain t' s2 where "x = (t', c1)" "t1 = s2 @ t'" "P2 s2"
    by (auto simp: has_lang_def)
  ultimately show "x \<in> {(t', c) |t' s. t = s @ t' \<and> (\<exists>s1 s2. s = s1 @ s2 \<and> P1 s1 \<and> P2 s2)}"
    by auto
next
  fix g n :: nat and t :: string and c :: caps and x
  assume "x \<in> {(t', c) |t' s. t = s @ t' \<and> (\<exists>s1 s2. s = s1 @ s2 \<and> P1 s1 \<and> P2 s2)}"
  then obtain t' s1 s2 where x: "x = (t', c)" and t: "t = (s1 @ s2) @ t'" and p: "P1 s1" "P2 s2"
    by auto
  have 1: "(s2 @ t', c) \<in> set (bt r1 g n t c)"
    using assms(1) t p(1) by (auto simp: has_lang_def)
  have 2: "(t', c) \<in> set (bt r2 (g + ngroups r1) n (s2 @ t') c)"
    using assms(2) p(2) by (auto simp: has_lang_def)
  show "x \<in> set (bt (Seq r1 r2) g n t c)"
    unfolding x set_bt_Seq using 1 2 by blast
qed

lemma has_lang_cong: "has_lang r P \<Longrightarrow> (\<And>s. P s = Q s) \<Longrightarrow> has_lang r Q"
  by (simp add: has_lang_def)

lemma has_lang_Group:
  assumes "has_lang r P"
  shows "set (bt (Group nm r) g n t c) = {(t', c(Suc g \<mapsto> s)) | t' s. t = s @ t' \<and> P s}"
  using assms unfolding set_bt_Group has_lang_def by (auto simp: image_iff)

lemma has_lang_accepts:
  assumes "has_lang r P"
  shows "rx_accepts (Group nm r) s = P s"
  unfolding rx_accepts_def list_ex_iff has_lang_Group[OF assms] by auto

lemma has_lang_nonempty:
  assumes "has_lang r P"
  shows "bt r g n t c \<noteq> [] \<longleftrightarrow> (\<exists>s t'. t = s @ t' \<and> P s)"
proof -
  have "bt r g n t c \<noteq> [] \<longleftrightarrow> set (bt r g n t c) \<noteq> {}" by simp
  also have "\<dots> \<longleftrightarrow> (\<exists>s t'. t = s @ t' \<and> P s)"
    using assms unfolding has_lang_def by auto
  finally show ?thesis .
qed


lemma has_lang_posint: "has_lang (Seq (One d19) (Star d09)) nonzero_start"
  unfolding has_lang_def bt_posint_set by auto

lemma has_lang_str: "has_lang (Plus (NotSet [CChr CHR ''/''])) (segment_language ''str'')"
  by (rule has_lang_cong[OF has_lang_Plus]) (auto simp: segment_language_def list_all_iff)

lemma has_lang_path: "has_lang (Plus Dot) (segment_language ''path'')"
  by (rule has_lang_cong[OF has_lang_Plus]) (auto simp: segment_language_def list_all_iff)

lemma has_lang_int:
  "has_lang (Alt (Lit ''0'') (Seq (One d19) (Star d09))) (segment_language ''int'')"
  by (rule has_lang_cong[OF has_lang_Alt[OF has_lang_Lit has_lang_posint]])
     (auto simp: segment_language_def)

lemma has_lang_plusint:
  "has_lang (Seq (One d19) (Star d09)) (segment_language ''+int'')"
  by (rule has_lang_cong[OF has_lang_posint]) (auto simp: segment_language_def)

lemma has_lang_minusint:
  "has_lang (Alt (Lit ''0'') (Seq (Opt (Lit ''-'')) (Seq (One d19) (Star d09))))
     (segment_language ''-int'')"
proof (rule has_lang_cong[OF has_lang_Alt[OF has_lang_Lit
          has_lang_Seq[OF has_lang_Opt[OF has_lang_Lit] has_lang_posint]]])
  fix s :: string
  have a: "(\<exists>s1 s2. s = s1 @ s2 \<and> (s1 = ''-'' \<or> s1 = []) \<and> nonzero_start s2)
           = (nonzero_start s \<or> (\<exists>ds. s = CHR ''-'' # ds \<and> nonzero_start ds))"
    (is "?A = ?B")
  proof
    assume ?A then show ?B by auto
  next
    assume ?B
    then show ?A
    proof
      assume "nonzero_start s"
      then have "s = [] @ s \<and> (([]::string) = ''-'' \<or> ([]::string) = []) \<and> nonzero_start s"
        by simp
      then show ?A by blast
    next
      assume "\<exists>ds. s = CHR ''-'' # ds \<and> nonzero_start ds"
      then obtain ds where "s = ''-'' @ ds \<and> (''-'' = ''-'' \<or> ''-'' = []) \<and> nonzero_start ds"
        by auto
      then show ?A by blast
    qed
  qed
  have b: "(\<exists>ds. s = CHR ''-'' # ds \<and> nonzero_start ds)
           = (s \<noteq> [] \<and> hd s = CHR ''-'' \<and> nonzero_start (tl s))"
    by (cases s) auto
  show "(s = ''0'' \<or> (\<exists>s1 s2. s = s1 @ s2 \<and> (s1 = ''-'' \<or> s1 = []) \<and> nonzero_start s2))
        = segment_language ''-int'' s"
    unfolding a b by (simp add: segment_language_def)
qed

lemma fragment_results:
  assumes "map_of types_re ty = Some frag"
  shows "set (bt frag g n t c) =
           {(t', c(Suc g \<mapsto> s)) | t' s. t = s @ t' \<and> segment_language ty s}"
    and "ngroups frag = 1"
proof -
  from assms consider
      "ty = ''str''" "frag = Group None (Plus (NotSet [CChr CHR ''/'']))"
    | "ty = ''path''" "frag = Group None (Plus Dot)"
    | "ty = ''int''" "frag = Group None (Alt (Lit ''0'') (Seq (One d19) (Star d09)))"
    | "ty = ''+int''" "frag = Group None (Seq (One d19) (Star d09))"
    | "ty = ''-int''"
      "frag = Group None (Alt (Lit ''0'') (Seq (Opt (Lit ''-'')) (Seq (One d19) (Star d09))))"
    by (auto simp: types_re_def split: if_splits)
  then have "set (bt frag g n t c) =
           {(t', c(Suc g \<mapsto> s)) | t' s. t = s @ t' \<and> segment_language ty s} \<and> ngroups frag = 1"
  proof cases
    case 1 then show ?thesis using has_lang_Group[OF has_lang_str] by simp
  next
    case 2 then show ?thesis using has_lang_Group[OF has_lang_path] by simp
  next
    case 3 then show ?thesis using has_lang_Group[OF has_lang_int] by simp
  next
    case 4 then show ?thesis using has_lang_Group[OF has_lang_plusint] by simp
  next
    case 5 then show ?thesis using has_lang_Group[OF has_lang_minusint] by simp
  qed
  then show "set (bt frag g n t c) =
           {(t', c(Suc g \<mapsto> s)) | t' s. t = s @ t' \<and> segment_language ty s}"
    and "ngroups frag = 1" by simp_all
qed

lemma fragment_accepts:
  assumes "map_of types_re ty = Some frag"
  shows "rx_accepts frag s = segment_language ty s"
  unfolding rx_accepts_def list_ex_iff fragment_results(1)[OF assms] by auto

section \<open>The example application, evaluated\<close>

lemma normalize_examples:
  "normalize_pattern ''/user/me'' = (''literal'', ''/user/me'')"
  "normalize_pattern ''/user/<id>'' = (''wildcard'', ''/user/<id>'')"
  "normalize_pattern ''/user/<id:int>'' = (''wildcard'', ''/user/<id:int>'')"
  "normalize_pattern ''/user/(.*)'' = (''regex'', ''/user/(.*)'')"
  "normalize_pattern ''/<123abc>'' = (''wildcard'', ''/<123abc>'')"
  by code_simp+

lemma compile_tokens_examples:
  "compile_tokens (WildcardRoute_tokens ''/user/<id>'') =
     Inr ([Lit ''/'', Lit ''user'', Lit ''/'', Group None (Plus (NotSet [CChr CHR ''/'']))],
          [\<lparr>wname = ''id'', wtype = ''str''\<rparr>])"
  "compile_tokens (WildcardRoute_tokens ''/user/<id:int>'') =
     Inr ([Lit ''/'', Lit ''user'', Lit ''/'',
           Group None (Alt (Lit ''0'') (Seq (One d19) (Star d09)))],
          [\<lparr>wname = ''id'', wtype = ''int''\<rparr>])"
  "compile_tokens (WildcardRoute_tokens ''/<123abc>'') =
     Inl (RouteError (Invalid_wildcard_name ''123abc'' ''<123abc>''))"
  by code_simp+

lemma example_router_eq:
  "example_router =
     \<lparr>literal = [''GET'' \<mapsto> [''/user/me'' \<mapsto> 1]],
      wildcard = [''GET'' \<mapsto>
        [WildcardRoute user_str [\<lparr>wname = ''id'', wtype = ''str''\<rparr>] 2,
         WildcardRoute user_int [\<lparr>wname = ''id'', wtype = ''int''\<rparr>] 3]],
      regex = [''GET'' \<mapsto>
        [RegexRoute (rx_compile (Seq (Lit ''/user/'') (Group None (Star Dot)))) 4]]\<rparr>"
  by (simp add: example_router_def Router_add_def normalize_examples compile_tokens_examples
        WildcardRoute_init_def RegexRoute_init_def example_compile_def Router_init_def
        dd_touch_def dd_get_def user_str_def user_int_def)

lemma example_matches:
  "WildcardRoute_match user_int [\<lparr>wname = ''id'', wtype = ''int''\<rparr>] (3::nat) ''/user/42''
     = Inr (Some (3, [], [(''id'', PInt 42)]))"
  "WildcardRoute_match user_str [\<lparr>wname = ''id'', wtype = ''str''\<rparr>] (2::nat) ''/user/42''
     = Inr (Some (2, [], [(''id'', PStr ''42'')]))"
  "WildcardRoute_match user_str [\<lparr>wname = ''id'', wtype = ''str''\<rparr>] (2::nat) ''/user/me''
     = Inr (Some (2, [], [(''id'', PStr ''me'')]))"
  "WildcardRoute_match user_int [\<lparr>wname = ''id'', wtype = ''int''\<rparr>] (3::nat) ''/user/me''
     = Inr None"
  by code_simp+

section \<open>Resolution\<close>





text \<open>
  C1. If the path is an exact key of the method's literal index, \<^verbatim>\<open>resolve\<close> returns
  the handler stored under it with an empty positional list and an empty named
  mapping, whatever wildcard and regex routes the router holds for the method and in
  whatever order the routes were registered.
\<close>

theorem literal_exact_match_wins:
  assumes "literal r method = Some d" and "d path = Some callback"
  shows "Router_resolve r method path = Inr (Some (callback, [], []))"
  using assms by (simp add: Router_resolve_def dd_get_def)

text \<open>
  In the example the wildcard route \<^verbatim>\<open>/user/<id>\<close>, registered after the literal
  \<^verbatim>\<open>/user/me\<close>, matches that path too; the literal entry is returned.
\<close>

theorem literal_exact_match_wins_witness:
  "Router_resolve example_router ''GET'' ''/user/me'' = Inr (Some (1, [], []))
   \<and> route_match (routes_for (wildcard example_router) ''GET'' ! 0) ''/user/me''
       = Inr (Some (2, [], [(''id'', PStr ''me'')]))"
  using literal_exact_match_wins[of example_router "''GET''" "[''/user/me'' \<mapsto> 1]"
      "''/user/me''" 1]
  by (simp add: example_router_eq routes_for_def example_matches)



text \<open>
  C7. \<^verbatim>\<open>contains_method\<close> is documented to return true if there is at least one route
  defined for the method. On a new router, \<^verbatim>\<open>add('DELETE', '/<123abc>', callback)\<close>
  raises \<^verbatim>\<open>RouteError\<close> for the invalid wildcard name and registers nothing, but it
  leaves an empty wildcard list under \<^verbatim>\<open>DELETE\<close>, so \<^verbatim>\<open>contains_method('DELETE')\<close>
  is true although no tier holds a route for the method.
\<close>

theorem failed_add_makes_method_supported:
  "fst (Router_add compile Router_init ''DELETE'' ''/<123abc>'' callback)
     = Some (RouteError (Invalid_wildcard_name ''123abc'' ''<123abc>''))
   \<and> literal (snd (Router_add compile Router_init ''DELETE'' ''/<123abc>'' callback)) ''DELETE''
       = None
   \<and> wildcard (snd (Router_add compile Router_init ''DELETE'' ''/<123abc>'' callback)) ''DELETE''
       = Some []
   \<and> regex (snd (Router_add compile Router_init ''DELETE'' ''/<123abc>'' callback)) ''DELETE''
       = None
   \<and> Router_contains_method
       (snd (Router_add compile Router_init ''DELETE'' ''/<123abc>'' callback)) ''DELETE''
   \<and> \<not> Router_contains_method Router_init ''DELETE''"
  by (simp add: Router_add_def normalize_examples compile_tokens_examples WildcardRoute_init_def
        Router_init_def dd_touch_def Router_contains_method_def)

section \<open>Integer segments\<close>


declare digits_of.simps [simp del]










lemma digit_not_sign: "is_digit c \<Longrightarrow> c \<noteq> CHR ''-'' \<and> c \<noteq> CHR ''+''"
  by (auto simp: is_digit_def ord_def)



lemma py_int_zero: "py_int ''0'' = Some 0 \<and> py_str 0 = ''0''"
  by code_simp

text \<open>The digits of a numeral: all its characters, but for a minus sign.\<close>

lemma digit_count_digits: "list_all is_digit ds \<Longrightarrow> digit_count ds = length ds"
  by (simp add: digit_count_def list_all_iff)

lemma digit_count_nonzero_start: "nonzero_start ds \<Longrightarrow> digit_count ds = length ds"
  by (simp add: digit_count_digits nonzero_start_def)

lemma digit_count_minus: "digit_count (CHR ''-'' # ds) = digit_count ds"
  by (simp add: digit_count_def is_digit_def ord_def)

lemma digit_count_le: "digit_count s \<le> length s"
  by (simp add: digit_count_def)

lemma segment_int_cases:
  assumes "ty = ''int'' \<or> ty = ''+int'' \<or> ty = ''-int''" and "segment_language ty s"
    and "digit_count s \<le> int_max_str_digits"
  shows "s = ''0''
         \<or> (nonzero_start s \<and> length s \<le> int_max_str_digits)
         \<or> (\<exists>ds. s = CHR ''-'' # ds \<and> nonzero_start ds \<and> length ds \<le> int_max_str_digits)"
proof -
  from assms(1,2) consider "s = ''0''" | "nonzero_start s"
    | ds where "s = CHR ''-'' # ds" "nonzero_start ds"
    by (cases s) (auto simp: segment_language_def split: if_splits)
  then show ?thesis
  proof cases
    case 1 then show ?thesis by simp
  next
    case 2
    with assms(3) show ?thesis by (simp add: digit_count_nonzero_start)
  next
    case 3
    with assms(3) show ?thesis by (simp add: digit_count_minus digit_count_nonzero_start)
  qed
qed


text \<open>Beyond the limit the conversion raises, whatever the digits are.\<close>

lemma py_int_over_limit:
  assumes "nonzero_start ds" and "int_max_str_digits < length ds"
  shows "py_int ds = None"
proof -
  from assms(1) obtain c cs where ds: "ds = c # cs" and c: "is_digit c"
    by (cases ds) (auto simp: nonzero_start_def)
  from assms(2) have "decimal ds = None" by (simp add: decimal_def)
  with ds c show ?thesis by (simp add: digit_not_sign)
qed

lemma long_numeral_facts:
  "nonzero_start long_numeral" "length long_numeral = 4301"
  "int_max_str_digits < length long_numeral" "CHR ''\<newline>'' \<notin> set long_numeral"
  by (simp_all add: long_numeral_def nonzero_start_def list_all_iff is_digit_def ord_def
        int_max_str_digits_def hd_replicate)

lemma py_int_long_numeral: "py_int long_numeral = None"
  by (rule py_int_over_limit) (rule long_numeral_facts)+




section \<open>The segment languages of the wildcard types\<close>

lemma WildcardRoute_match_callback:
  "WildcardRoute_match re ws callback path =
     (case WildcardRoute_match re ws (0::nat) path of
        Inl e \<Rightarrow> Inl e
      | Inr None \<Rightarrow> Inr None
      | Inr (Some (cb0, args, kwargs)) \<Rightarrow> Inr (Some (callback, args, kwargs)))"
  by (simp add: WildcardRoute_match_def split: option.splits sum.splits)

lemma item_tokens:
  "compile_tokens (WildcardRoute_tokens ''/item/<n:int>'') =
     Inr ([Lit ''/'', Lit ''item'', Lit ''/'',
           Group None (Alt (Lit ''0'') (Seq (One d19) (Star d09)))],
          [\<lparr>wname = ''n'', wtype = ''int''\<rparr>])"
  "compile_tokens (WildcardRoute_tokens ''/item/<n:+int>'') =
     Inr ([Lit ''/'', Lit ''item'', Lit ''/'', Group None (Seq (One d19) (Star d09))],
          [\<lparr>wname = ''n'', wtype = ''+int''\<rparr>])"
  by code_simp+

lemma item_matches:
  "WildcardRoute_match
     (anchored [Lit ''/'', Lit ''item'', Lit ''/'',
                Group None (Alt (Lit ''0'') (Seq (One d19) (Star d09)))])
     [\<lparr>wname = ''n'', wtype = ''int''\<rparr>] (0::nat) ''/item/0''
     = Inr (Some (0, [], [(''n'', PInt 0)]))"
  "WildcardRoute_match
     (anchored [Lit ''/'', Lit ''item'', Lit ''/'',
                Group None (Alt (Lit ''0'') (Seq (One d19) (Star d09)))])
     [\<lparr>wname = ''n'', wtype = ''int''\<rparr>] (0::nat) ''/item/7''
     = Inr (Some (0, [], [(''n'', PInt 7)]))"
  "WildcardRoute_match
     (anchored [Lit ''/'', Lit ''item'', Lit ''/'',
                Group None (Alt (Lit ''0'') (Seq (One d19) (Star d09)))])
     [\<lparr>wname = ''n'', wtype = ''int''\<rparr>] (0::nat) ''/item/007''
     = Inr None"
  "WildcardRoute_match
     (anchored [Lit ''/'', Lit ''item'', Lit ''/'', Group None (Seq (One d19) (Star d09))])
     [\<lparr>wname = ''n'', wtype = ''+int''\<rparr>] (0::nat) ''/item/0''
     = Inr None"
  by code_simp+

text \<open>
  C4, as the code has it. Each wildcard type accepts exactly this segment language:
  str any non-empty run of characters other than the slash; path any non-empty run of
  characters other than the newline, the slash included; int the numeral 0 or a
  positive integer with no leading zero; +int a positive integer with no leading zero;
  -int the numeral 0 or a positive integer with no leading zero, with or without a
  minus sign before it. The route \<^verbatim>\<open>/item/<n:int>\<close> matches \<^verbatim>\<open>/item/0\<close> and
  \<^verbatim>\<open>/item/7\<close> and does not match \<^verbatim>\<open>/item/007\<close>; the route \<^verbatim>\<open>/item/<n:+int>\<close>
  does not match \<^verbatim>\<open>/item/0\<close>.
\<close>

theorem wildcard_type_languages:
  "(\<exists>r. map_of types_re ''str'' = Some r
        \<and> (\<forall>s. rx_accepts r s = (s \<noteq> [] \<and> CHR ''/'' \<notin> set s)))
   \<and> (\<exists>r. map_of types_re ''path'' = Some r
        \<and> (\<forall>s. rx_accepts r s = (s \<noteq> [] \<and> CHR ''\<newline>'' \<notin> set s)))
   \<and> (\<exists>r. map_of types_re ''int'' = Some r
        \<and> (\<forall>s. rx_accepts r s = (s = ''0'' \<or> nonzero_start s)))
   \<and> (\<exists>r. map_of types_re ''+int'' = Some r
        \<and> (\<forall>s. rx_accepts r s = nonzero_start s))
   \<and> (\<exists>r. map_of types_re ''-int'' = Some r
        \<and> (\<forall>s. rx_accepts r s =
              (s = ''0'' \<or> nonzero_start s
               \<or> (s \<noteq> [] \<and> hd s = CHR ''-'' \<and> nonzero_start (tl s)))))
   \<and> (\<exists>route. WildcardRoute_init ''/item/<n:int>'' callback = Inr route
        \<and> route_match route ''/item/0'' = Inr (Some (callback, [], [(''n'', PInt 0)]))
        \<and> route_match route ''/item/7'' = Inr (Some (callback, [], [(''n'', PInt 7)]))
        \<and> route_match route ''/item/007'' = Inr None)
   \<and> (\<exists>route. WildcardRoute_init ''/item/<n:+int>'' callback = Inr route
        \<and> route_match route ''/item/0'' = Inr None)"
proof (intro conjI)
  show "\<exists>r. map_of types_re ''str'' = Some r
        \<and> (\<forall>s. rx_accepts r s = (s \<noteq> [] \<and> CHR ''/'' \<notin> set s))"
    using fragment_accepts[of "''str''"] by (simp add: types_re_def segment_language_def)
  show "\<exists>r. map_of types_re ''path'' = Some r
        \<and> (\<forall>s. rx_accepts r s = (s \<noteq> [] \<and> CHR ''\<newline>'' \<notin> set s))"
    using fragment_accepts[of "''path''"] by (simp add: types_re_def segment_language_def)
  show "\<exists>r. map_of types_re ''int'' = Some r
        \<and> (\<forall>s. rx_accepts r s = (s = ''0'' \<or> nonzero_start s))"
    using fragment_accepts[of "''int''"] by (simp add: types_re_def segment_language_def)
  show "\<exists>r. map_of types_re ''+int'' = Some r \<and> (\<forall>s. rx_accepts r s = nonzero_start s)"
    using fragment_accepts[of "''+int''"] by (simp add: types_re_def segment_language_def)
  show "\<exists>r. map_of types_re ''-int'' = Some r
        \<and> (\<forall>s. rx_accepts r s =
              (s = ''0'' \<or> nonzero_start s
               \<or> (s \<noteq> [] \<and> hd s = CHR ''-'' \<and> nonzero_start (tl s))))"
    using fragment_accepts[of "''-int''"] by (simp add: types_re_def segment_language_def)
  show "\<exists>route. WildcardRoute_init ''/item/<n:int>'' callback = Inr route
        \<and> route_match route ''/item/0'' = Inr (Some (callback, [], [(''n'', PInt 0)]))
        \<and> route_match route ''/item/7'' = Inr (Some (callback, [], [(''n'', PInt 7)]))
        \<and> route_match route ''/item/007'' = Inr None"
    by (simp add: WildcardRoute_init_def item_tokens
          WildcardRoute_match_callback[where callback = callback] item_matches)
  show "\<exists>route. WildcardRoute_init ''/item/<n:+int>'' callback = Inr route
        \<and> route_match route ''/item/0'' = Inr None"
    by (simp add: WildcardRoute_init_def item_tokens
          WildcardRoute_match_callback[where callback = callback] item_matches)
qed

text \<open>
  The claim as written lets path accept any characters. The fragment of path is
  \<^verbatim>\<open>(.+)\<close>, compiled without the DOTALL flag, and the dot matches no newline: the
  segment of the three characters a, newline, b is not accepted.
\<close>

theorem path_rejects_newline:
  "map_of types_re ''path'' = Some (Group None (Plus Dot))
   \<and> \<not> rx_accepts (Group None (Plus Dot)) [CHR ''a'', CHR ''\<newline>'', CHR ''b'']"
  by code_simp

section \<open>The captures of a wildcard route\<close>

lemma set_bt_Bol: "set (bt Bol g n t c) \<subseteq> {(t, c)}"
  by (auto simp: bt.simps)

lemma set_bt_Eol: "set (bt Eol g n t c) \<subseteq> {(t, c)}"
  by (auto simp: bt.simps)

text \<open>A match found by \<^verbatim>\<open>search\<close> is a way to match on some suffix of the subject.\<close>

lemma search_at_result:
  "search_at r n t = Some (i, k, c) \<Longrightarrow>
     \<exists>u t0 t'. t = u @ t0 \<and> (t', c) \<in> set (bt r 0 n t0 Map.empty)"
proof (induction t arbitrary: i k)
  case Nil
  show ?case
  proof (cases "bt r 0 n [] Map.empty")
    case Nil
    with Nil.prems show ?thesis by simp
  next
    case (Cons p ps)
    with Nil.prems have "c = snd p" by (cases p) auto
    with Cons have "(fst p, c) \<in> set (bt r 0 n [] Map.empty)" by simp
    then show ?thesis
      by (intro exI[of _ "[]"] exI[of _ "fst p"]) simp
  qed
next
  case (Cons x t2)
  show ?case
  proof (cases "bt r 0 n (x # t2) Map.empty")
    case Nil
    with Cons.prems obtain i' where "search_at r n t2 = Some (i', k, c)"
      by auto
    from Cons.IH[OF this] obtain u t0 t' where
      "t2 = u @ t0" "(t', c) \<in> set (bt r 0 n t0 Map.empty)" by blast
    then show ?thesis
      by (intro exI[of _ "x # u"] exI[of _ t0] exI[of _ t']) simp
  next
    case (Cons p ps)
    with Cons.prems have "c = snd p" by (cases p) auto
    with Cons have "(fst p, c) \<in> set (bt r 0 n (x # t2) Map.empty)"
      by simp
    then show ?thesis
      by (intro exI[of _ "[]"] exI[of _ "x # t2"] exI[of _ "fst p"]) simp
  qed
qed

lemma rx_search_result:
  "rx_search r s = Some m \<Longrightarrow>
     \<exists>u t0 t' c. s = u @ t0 \<and> (t', c) \<in> set (bt r 0 (length s) t0 Map.empty)
        \<and> (\<forall>k. 0 < k \<longrightarrow> m k = c k)"
proof -
  assume "rx_search r s = Some m"
  then obtain i k c where s: "search_at r (length s) s = Some (i, k, c)"
    and m: "m = c(0 \<mapsto> take k (drop i s))"
    by (auto simp: rx_search_def)
  from search_at_result[OF s] obtain u t0 t' where
    "s = u @ t0" "(t', c) \<in> set (bt r 0 (length s) t0 Map.empty)" by blast
  moreover from m have "\<forall>k. 0 < k \<longrightarrow> m k = c k" by simp
  ultimately show ?thesis by blast
qed

lemma search_at_iff:
  "search_at r n t \<noteq> None \<longleftrightarrow> (\<exists>u t0. t = u @ t0 \<and> bt r 0 n t0 Map.empty \<noteq> [])"
proof (induction t)
  case Nil
  then show ?case by (auto split: list.splits)
next
  case (Cons x t2)
  show ?case
  proof (cases "bt r 0 n (x # t2) Map.empty")
    case Nil
    then have "search_at r n (x # t2) \<noteq> None \<longleftrightarrow> search_at r n t2 \<noteq> None"
      by simp
    also have "\<dots> \<longleftrightarrow> (\<exists>u t0. t2 = u @ t0 \<and> bt r 0 n t0 Map.empty \<noteq> [])"
      by (rule Cons.IH)
    also have "\<dots> \<longleftrightarrow> (\<exists>u t0. x # t2 = u @ t0 \<and> bt r 0 n t0 Map.empty \<noteq> [])"
      using Nil by (auto simp: Cons_eq_append_conv)
    finally show ?thesis .
  next
    case (Cons p ps)
    then have "search_at r n (x # t2) \<noteq> None" by (cases p) simp
    moreover from Cons have "x # t2 = [] @ (x # t2) \<and> bt r 0 n (x # t2) Map.empty \<noteq> []"
      by simp
    ultimately show ?thesis by blast
  qed
qed

lemma compile_tokens_groups:
  "compile_tokens toks = Inr (res, ws) \<Longrightarrow> ngroups (foldr Seq res (Lit [])) = length ws"
proof (induction toks arbitrary: res ws)
  case Nil
  then show ?case by simp
next
  case (Cons tok rest)
  then show ?case
    by (auto simp: Wildcard_regex_def fragment_results(2)
          split: if_splits sum.splits option.splits)
qed

text \<open>
  Every group of a compiled pattern captures a segment of the language of its
  wildcard's type, a piece of what was left of the subject.
\<close>

lemma compile_tokens_caps:
  "compile_tokens toks = Inr (res, ws) \<Longrightarrow>
   (t', c') \<in> set (bt (foldr Seq res (Lit [])) g n t c) \<Longrightarrow>
   (\<forall>i<length ws. \<exists>s. c' (Suc (g + i)) = Some s \<and> segment_language (wtype (ws ! i)) s
                        \<and> length s \<le> length t)
   \<and> (\<forall>k\<le>g. c' k = c k)"
proof (induction toks arbitrary: res ws g t c)
  case Nil
  then show ?case by (auto simp: set_bt_Lit)
next
  case (Cons tok rest)
  show ?case
  proof (cases "tok \<noteq> [] \<and> startswith tok ''<'' \<and> endswith tok ''>''")
    case True
    with Cons.prems(1) obtain w frag res' ws' where
      w: "Wildcard_regex w = Inr frag" and
      rest: "compile_tokens rest = Inr (res', ws')" and
      res: "res = frag # res'" and ws: "ws = w # ws'"
      by (auto split: sum.splits)
    from w have m: "map_of types_re (wtype w) = Some frag"
      by (auto simp: Wildcard_regex_def split: option.splits)
    from Cons.prems(2) res obtain t1 c1 where
      1: "(t1, c1) \<in> set (bt frag g n t c)" and
      2: "(t', c') \<in> set (bt (foldr Seq res' (Lit [])) (Suc g) n t1 c1)"
      by (auto simp: set_bt_Seq fragment_results(2)[OF m])
    from 1 obtain s where c1: "c1 = c(Suc g \<mapsto> s)" and s: "segment_language (wtype w) s"
      and t: "t = s @ t1"
      by (auto simp: fragment_results(1)[OF m])
    from Cons.IH[OF rest 2] have
      ih1: "\<forall>i<length ws'. \<exists>s. c' (Suc (Suc g + i)) = Some s
              \<and> segment_language (wtype (ws' ! i)) s \<and> length s \<le> length t1"
      and ih2: "\<forall>k\<le>Suc g. c' k = c1 k" by auto
    have a: "\<forall>k\<le>g. c' k = c k" using ih2 c1 by auto
    have b: "\<forall>i<length ws. \<exists>s. c' (Suc (g + i)) = Some s
               \<and> segment_language (wtype (ws ! i)) s \<and> length s \<le> length t"
    proof (intro allI impI)
      fix i assume i: "i < length ws"
      show "\<exists>s. c' (Suc (g + i)) = Some s \<and> segment_language (wtype (ws ! i)) s
                 \<and> length s \<le> length t"
      proof (cases i)
        case 0
        then show ?thesis using ih2 c1 s ws t by auto
      next
        case (Suc j)
        with i ws have "j < length ws'" by simp
        with ih1 obtain s' where "c' (Suc (Suc g + j)) = Some s'"
          "segment_language (wtype (ws' ! j)) s'" "length s' \<le> length t1" by blast
        with Suc ws t show ?thesis by simp
      qed
    qed
    from a b show ?thesis by simp
  next
    case False
    with Cons.prems(1) obtain res' where
      rest: "compile_tokens rest = Inr (res', ws)" and res: "res = Lit tok # res'"
      by (auto split: sum.splits)
    from Cons.prems(2) res obtain t1 where
      2: "(t', c') \<in> set (bt (foldr Seq res' (Lit [])) g n t1 c)" and t: "t = tok @ t1"
      by (auto simp: set_bt_Seq set_bt_Lit)
    from Cons.IH[OF rest 2] t show ?thesis by auto
  qed
qed

lemma anchored_caps:
  assumes "compile_tokens toks = Inr (res, ws)" and "rx_search (anchored res) path = Some m"
  shows "\<forall>i<length ws. \<exists>s. m (Suc i) = Some s \<and> segment_language (wtype (ws ! i)) s
                         \<and> length s \<le> length path"
proof -
  from rx_search_result[OF assms(2)] obtain u t0 t' c where
    p: "path = u @ t0" and
    r: "(t', c) \<in> set (bt (anchored res) 0 (length path) t0 Map.empty)"
    and m: "\<forall>k. 0 < k \<longrightarrow> m k = c k" by blast
  from r obtain t1 t2 c1 where
    1: "(t1, c1) \<in> set (bt Bol 0 (length path) t0 Map.empty)" and
    2: "(t2, c) \<in> set (bt (foldr Seq res (Lit [])) 0 (length path) t1 c1)"
    using set_bt_Eol by (fastforce simp: anchored_def set_bt_Seq)
  from 1 set_bt_Bol[of 0 "length path" t0 Map.empty] have "t1 = t0" by auto
  with p have len: "length t1 \<le> length path" by simp
  show ?thesis
  proof (intro allI impI)
    fix i assume "i < length ws"
    with compile_tokens_caps[OF assms(1) 2] obtain s where
      "c (Suc (0 + i)) = Some s" "segment_language (wtype (ws ! i)) s" "length s \<le> length t1"
      by blast
    with m len show "\<exists>s. m (Suc i) = Some s \<and> segment_language (wtype (ws ! i)) s
                         \<and> length s \<le> length path"
      by simp
  qed
qed

section \<open>The results of a wildcard route\<close>


lemma map_of_dict_set: "map_of (dict_set kvs k v) = (map_of kvs)(k \<mapsto> v)"
  by (induction kvs) (auto simp: fun_upd_twist)

lemma py_int_numeral_value:
  assumes "ty = ''int'' \<or> ty = ''+int'' \<or> ty = ''-int''" and "segment_language ty s"
    and "digit_count s \<le> int_max_str_digits"
  shows "py_int s = Some (numeral_value s)"
proof -
  from segment_int_cases[OF assms] consider "s = ''0''"
    | "nonzero_start s" "length s \<le> int_max_str_digits"
    | ds where "s = CHR ''-'' # ds" "nonzero_start ds" "length ds \<le> int_max_str_digits"
    by blast
  then show ?thesis
  proof cases
    case 1
    have "numeral_value ''0'' = 0"
      by (simp add: numeral_value_def digits_value_def digit_value_def ord_def)
    with 1 py_int_zero show ?thesis by simp
  next
    case 2
    then obtain c cs where s: "s = c # cs" and c: "is_digit c"
      by (cases s) (auto simp: nonzero_start_def)
    with 2 show ?thesis
      by (auto simp: digit_not_sign decimal_def numeral_value_def nonzero_start_def)
  next
    case 3 then show ?thesis
      by (auto simp: decimal_def numeral_value_def nonzero_start_def)
  qed
qed

lemma Wildcard_value_converted:
  assumes "segment_language (wtype w) s"
    and "wtype w = ''str'' \<or> wtype w = ''path'' \<or> digit_count s \<le> int_max_str_digits"
  shows "Wildcard_value w (Some s) = Inr (converted w s)"
proof (cases "wtype w = ''str'' \<or> wtype w = ''path''")
  case True
  then show ?thesis by (auto simp: Wildcard_value_def converted_def)
next
  case False
  with assms(1) have ty: "wtype w = ''int'' \<or> wtype w = ''+int'' \<or> wtype w = ''-int''"
    by (auto simp: segment_language_def split: if_splits)
  from False assms(2) have "digit_count s \<le> int_max_str_digits" by simp
  from py_int_numeral_value[OF ty assms(1) this] False show ?thesis
    by (auto simp: Wildcard_value_def converted_def)
qed

lemma positional_Cons:
  "positional (w # ws) (s # segs) =
     (if wname w = [] then converted w s # positional ws segs else positional ws segs)"
  by (simp add: positional_def)

lemma named_Cons:
  "named (w # ws) (s # segs) nm =
     (if nm = [] \<or> nm = ''!'' then None
      else case named ws segs nm of
             Some v \<Rightarrow> Some v
           | None \<Rightarrow> if nm = wname w then Some (converted w s) else None)"
  by (simp add: named_def map_add_def split: option.splits)

lemma named_reserved: "named ws segs [] = None" "named ws segs ''!'' = None"
  by (simp_all add: named_def)

lemma within_digit_limit_Cons:
  "within_digit_limit (w # ws) (s # segs) =
     ((wname w = ''!'' \<or> wtype w = ''str'' \<or> wtype w = ''path''
        \<or> digit_count s \<le> int_max_str_digits)
      \<and> within_digit_limit ws segs)"
  by (simp add: within_digit_limit_def)

text \<open>The loop from any point on: \<open>k\<close> wildcards are done, \<open>ws\<close> and \<open>segs\<close> remain.\<close>

lemma collect_spec:
  assumes "length segs = length ws"
    and "\<forall>i<length ws. segment_language (wtype (ws ! i)) (segs ! i)"
    and "\<forall>i<length ws. k + i < length gs \<and> gs ! (k + i) = Some (segs ! i)"
    and "within_digit_limit ws segs"
  shows "\<exists>kwargs'. collect (enumerate k ws) gs args kwargs
            = Inr (args @ positional ws segs, kwargs')
          \<and> (\<forall>nm. map_of kwargs' nm =
                (case named ws segs nm of Some v \<Rightarrow> Some v | None \<Rightarrow> map_of kwargs nm))"
  using assms
proof (induction ws arbitrary: segs k args kwargs)
  case Nil
  then show ?case by (simp add: positional_def named_def)
next
  case (Cons w ws)
  from Cons.prems(1) obtain s segs' where segs: "segs = s # segs'" and len: "length segs' = length ws"
    by (cases segs) auto
  from Cons.prems(2) segs have s: "segment_language (wtype w) s"
    and lang': "\<forall>i<length ws. segment_language (wtype (ws ! i)) (segs' ! i)"
    by auto
  from Cons.prems(3)[rule_format, of 0] segs have g: "k < length gs" "gs ! k = Some s"
    by auto
  have gs': "\<forall>i<length ws. Suc k + i < length gs \<and> gs ! (Suc k + i) = Some (segs' ! i)"
  proof (intro allI impI)
    fix i assume "i < length ws"
    then show "Suc k + i < length gs \<and> gs ! (Suc k + i) = Some (segs' ! i)"
      using Cons.prems(3)[rule_format, of "Suc i"] segs by simp
  qed
  from Cons.prems(4) segs have
    fit: "wname w = ''!'' \<or> wtype w = ''str'' \<or> wtype w = ''path''
            \<or> digit_count s \<le> int_max_str_digits"
    and lim': "within_digit_limit ws segs'"
    by (simp_all add: within_digit_limit_Cons)
  note ih = Cons.IH[OF len lang' gs' lim']
  show ?case
  proof (cases "wname w = ''!''")
    case True
    from ih[of args kwargs] obtain kwargs' where
      "collect (enumerate (Suc k) ws) gs args kwargs = Inr (args @ positional ws segs', kwargs')"
      "\<forall>nm. map_of kwargs' nm =
          (case named ws segs' nm of Some v \<Rightarrow> Some v | None \<Rightarrow> map_of kwargs nm)"
      by blast
    with True segs show ?thesis
      by (auto simp: positional_Cons named_Cons named_reserved split: option.splits)
  next
    case False
    with fit have "wtype w = ''str'' \<or> wtype w = ''path'' \<or> digit_count s \<le> int_max_str_digits"
      by simp
    note v = Wildcard_value_converted[OF s this]
    show ?thesis
    proof (cases "wname w = []")
      case True
      from ih[of "args @ [converted w s]" kwargs] obtain kwargs' where
        "collect (enumerate (Suc k) ws) gs (args @ [converted w s]) kwargs
           = Inr ((args @ [converted w s]) @ positional ws segs', kwargs')"
        "\<forall>nm. map_of kwargs' nm =
            (case named ws segs' nm of Some v \<Rightarrow> Some v | None \<Rightarrow> map_of kwargs nm)"
        by blast
      with True segs g v show ?thesis
        by (auto simp: positional_Cons named_Cons named_reserved tuple_get_def split: option.splits)
    next
      case nonempty: False
      from ih[of args "dict_set kwargs (wname w) (converted w s)"] obtain kwargs' where
        "collect (enumerate (Suc k) ws) gs args (dict_set kwargs (wname w) (converted w s))
           = Inr (args @ positional ws segs', kwargs')"
        "\<forall>nm. map_of kwargs' nm =
            (case named ws segs' nm of
               Some v \<Rightarrow> Some v
             | None \<Rightarrow> map_of (dict_set kwargs (wname w) (converted w s)) nm)"
        by blast
      with False nonempty segs g v show ?thesis
        by (auto simp: positional_Cons named_Cons named_reserved tuple_get_def map_of_dict_set
              split: option.splits)
    qed
  qed
qed

text \<open>
  A matching route built from tokens: every wildcard has captured a piece of the
  path, and when no conversion meets the digit limit the route returns the results
  that the specification describes.
\<close>

lemma wildcard_match_core:
  assumes "compile_tokens toks = Inr (res, ws)" and "rx_search (anchored res) path = Some m"
  shows "\<exists>segs. match_groups (length ws) m = map Some segs
           \<and> (\<forall>s\<in>set segs. length s \<le> length path)
           \<and> (within_digit_limit ws segs \<longrightarrow>
                (\<exists>kwargs. WildcardRoute_match (anchored res) ws cb path
                             = Inr (Some (cb, positional ws segs, kwargs))
                         \<and> (\<forall>nm. map_of kwargs nm = named ws segs nm)))"
proof -
  define segs where "segs = map (\<lambda>i. the (m (Suc i))) [0..<length ws]"
  note caps = anchored_caps[OF assms]
  have len: "length segs = length ws" by (simp add: segs_def)
  have lang: "\<forall>i<length ws. segment_language (wtype (ws ! i)) (segs ! i)"
    using caps by (auto simp: segs_def)
  have short: "\<forall>s\<in>set segs. length s \<le> length path"
    using caps by (auto simp: segs_def)
  have groups: "match_groups (length ws) m = map Some segs"
    unfolding match_groups_def segs_def
    using caps by (auto simp: map_Suc_upt[symmetric] simp del: upt_Suc)
  have gs: "\<forall>i<length ws. 0 + i < length (match_groups (length ws) m)
               \<and> match_groups (length ws) m ! (0 + i) = Some (segs ! i)"
    unfolding groups using len by simp
  have n: "ngroups (anchored res) = length ws"
    using compile_tokens_groups[OF assms(1)] by (simp add: anchored_def)
  have "\<exists>kwargs. WildcardRoute_match (anchored res) ws cb path
                    = Inr (Some (cb, positional ws segs, kwargs))
                \<and> (\<forall>nm. map_of kwargs nm = named ws segs nm)"
    if lim: "within_digit_limit ws segs"
  proof -
    from collect_spec[OF len lang gs lim, of "[]" "[]"] obtain kwargs where
      c: "collect (enumerate 0 ws) (match_groups (length ws) m) [] []
            = Inr (positional ws segs, kwargs)"
      and k: "\<forall>nm. map_of kwargs nm =
                 (case named ws segs nm of Some v \<Rightarrow> Some v | None \<Rightarrow> map_of [] nm)"
      by (elim exE conjE) simp
    have "WildcardRoute_match (anchored res) ws cb path
            = Inr (Some (cb, positional ws segs, kwargs))"
      using assms(2) c n by (simp add: WildcardRoute_match_def)
    moreover have "\<forall>nm. map_of kwargs nm = named ws segs nm"
      using k by (auto split: option.splits)
    ultimately show ?thesis by blast
  qed
  with groups short show ?thesis by blast
qed

text \<open>No piece of a path of at most \<open>int_max_str_digits\<close> characters meets the limit.\<close>

lemma short_within_digit_limit:
  assumes "\<forall>s\<in>set segs. length s \<le> length path" and "length path \<le> int_max_str_digits"
  shows "within_digit_limit ws segs"
  unfolding within_digit_limit_def list_all_iff
proof (intro ballI)
  fix x assume x: "x \<in> set (zip ws segs)"
  obtain w s where ws: "x = (w, s)" by (cases x)
  with x have "s \<in> set segs" by (auto dest: set_zip_rightD)
  with assms(1) have "length s \<le> length path" by simp
  with assms(2) digit_count_le[of s] have "digit_count s \<le> int_max_str_digits" by simp
  with ws show "case x of (w, s) \<Rightarrow> wname w = ''!'' \<or> wtype w = ''str'' \<or> wtype w = ''path''
                  \<or> digit_count s \<le> int_max_str_digits"
    by simp
qed

lemma compiled_route_total:
  assumes "compiled_route route" and "length path \<le> int_max_str_digits"
  shows "\<exists>x. route_match route path = Inr x"
proof (cases route)
  case (WildcardRoute re ws cb)
  with assms obtain toks res where t: "compile_tokens toks = Inr (res, ws)" and re: "re = anchored res"
    by (auto simp: compiled_route_def)
  show ?thesis
  proof (cases "rx_search re path")
    case None
    with WildcardRoute show ?thesis by (simp add: WildcardRoute_match_def)
  next
    case (Some m)
    with re have "rx_search (anchored res) path = Some m" by simp
    from wildcard_match_core[OF t this, of cb] obtain segs where
      short: "\<forall>s\<in>set segs. length s \<le> length path"
      and r: "within_digit_limit ws segs \<longrightarrow>
                (\<exists>kwargs. WildcardRoute_match (anchored res) ws cb path
                             = Inr (Some (cb, positional ws segs, kwargs))
                         \<and> (\<forall>nm. map_of kwargs nm = named ws segs nm))"
      by blast
    from short_within_digit_limit[OF short assms(2)] r re WildcardRoute show ?thesis by auto
  qed
next
  case (RegexRoute re cb)
  then show ?thesis by simp
qed

lemma scan_total:
  "(\<And>route. route \<in> set rs \<Longrightarrow> \<exists>x. route_match route path = Inr x) \<Longrightarrow>
     \<exists>x. scan rs path = Inr x"
proof (induction rs)
  case Nil
  then show ?case by simp
next
  case (Cons route rs)
  from Cons.prems[of route] obtain x where x: "route_match route path = Inr x" by auto
  from Cons.IH Cons.prems obtain y where "scan rs path = Inr y" by auto
  with x show ?case by (cases x) auto
qed

lemma all_compiled_touch: "all_compiled d \<Longrightarrow> all_compiled (dd_touch d m [])"
  by (auto simp: all_compiled_def dd_touch_def split: option.splits if_splits)

lemma all_compiled_append:
  "all_compiled d \<Longrightarrow> compiled_route route \<Longrightarrow>
     all_compiled ((dd_touch d m [])(m \<mapsto> dd_get (dd_touch d m []) m [] @ [route]))"
  by (auto simp: all_compiled_def dd_touch_def dd_get_def split: option.splits if_splits)

lemma WildcardRoute_init_compiled:
  "WildcardRoute_init pat cb = Inr route \<Longrightarrow> compiled_route route"
  by (auto simp: WildcardRoute_init_def compiled_route_def split: sum.splits) blast

lemma RegexRoute_init_compiled:
  "RegexRoute_init compile pat cb = Inr route \<Longrightarrow> compiled_route route"
  by (auto simp: RegexRoute_init_def compiled_route_def split: option.splits)

lemma Router_add_compiled:
  assumes "Router_add compile r method pattern cb = (e, r')"
    and "all_compiled (wildcard r)" and "all_compiled (regex r)"
  shows "all_compiled (wildcard r') \<and> all_compiled (regex r')"
proof -
  obtain pt pat where np: "normalize_pattern pattern = (pt, pat)" by (cases "normalize_pattern pattern")
  show ?thesis
  proof (cases "pt = ''literal''")
    case True
    with assms np show ?thesis by (auto simp: Router_add_def Let_def)
  next
    case nl: False
    show ?thesis
    proof (cases "pt = ''wildcard''")
      case True
      with assms np nl show ?thesis
        by (auto simp: Router_add_def Let_def all_compiled_touch all_compiled_append
              WildcardRoute_init_compiled split: sum.splits)
    next
      case False
      with assms np nl show ?thesis
        by (auto simp: Router_add_def Let_def all_compiled_touch all_compiled_append
              RegexRoute_init_compiled split: sum.splits)
    qed
  qed
qed

lemma built_compiled:
  "built compile r \<Longrightarrow> all_compiled (wildcard r) \<and> all_compiled (regex r)"
proof (induction rule: built.induct)
  case built_init
  then show ?case by (simp add: Router_init_def all_compiled_def)
next
  case (built_add r m p cb e r')
  show ?case
    by (rule Router_add_compiled[OF built_add.hyps(2)]) (use built_add.IH in auto)
qed

lemma scan_dicts_total:
  assumes "\<And>d. d \<in> set ds \<Longrightarrow> all_compiled d" and "length path \<le> int_max_str_digits"
  shows "\<exists>x. scan_dicts ds method path = Inr x"
  using assms(1)
proof (induction ds)
  case Nil
  then show ?case by simp
next
  case (Cons d ds)
  from Cons.prems have d: "all_compiled d" by simp
  from Cons.IH Cons.prems obtain y where y: "scan_dicts ds method path = Inr y" by auto
  show ?case
  proof (cases "d method")
    case None
    with y show ?thesis by simp
  next
    case (Some rs)
    have "\<exists>x. scan (rev rs) path = Inr x"
    proof (rule scan_total)
      fix route assume "route \<in> set (rev rs)"
      with d Some have "compiled_route route" by (auto simp: all_compiled_def)
      then show "\<exists>x. route_match route path = Inr x"
        using assms(2) by (rule compiled_route_total)
    qed
    then obtain x where "scan (rev rs) path = Inr x" by auto
    with Some y show ?thesis by (cases x) auto
  qed
qed

text \<open>
  On a router built by calls of \<^verbatim>\<open>add\<close>, \<^verbatim>\<open>resolve\<close> raises nothing on a path of at
  most \<open>int_max_str_digits\<close> characters.
\<close>

lemma resolve_total_on_short_paths:
  assumes "built compile r" and "length path \<le> int_max_str_digits"
  shows "\<exists>res. Router_resolve r method path = Inr res"
proof -
  from built_compiled[OF assms(1)] have c: "all_compiled (wildcard r)" "all_compiled (regex r)"
    by simp_all
  have "\<exists>x. scan_dicts [wildcard r, regex r] method path = Inr x"
    by (rule scan_dicts_total) (use c assms(2) in auto)
  then show ?thesis
    by (simp add: Router_resolve_def Router_resolve_non_literal_route_def del: scan_dicts.simps)
qed

section \<open>A segment beyond the digit limit\<close>

text \<open>
  The route \<^verbatim>\<open>/item/<n:int>\<close> on the path \<^verbatim>\<open>/item/\<close> followed by 4301 digits 1:
  the pattern matches, the group captures all the digits, and the conversion raises.
\<close>

lemma item_int_results:
  "((t', c) \<in> set (bt item_int 0 n t Map.empty)) =
     (\<exists>s. length t = n \<and> t = ''/item/'' @ s @ t' \<and> segment_language ''int'' s
          \<and> (t' = [] \<or> t' = [CHR ''\<newline>'']) \<and> c = Map.empty(Suc 0 \<mapsto> s))"
proof -
  have m: "map_of types_re ''int'' = Some (Group None (Alt (Lit ''0'') (Seq (One d19) (Star d09))))"
    by (simp add: types_re_def)
  show ?thesis
    unfolding item_int_def anchored_def
    by (auto simp: set_bt_Seq set_bt_Lit fragment_results(1)[OF m] bt.simps(9,10)
          split: if_splits)
qed

lemma item_long_search: "rx_search item_int (''/item/'' @ long_numeral) \<noteq> None"
proof -
  have "segment_language ''int'' long_numeral"
    by (simp add: segment_language_def long_numeral_facts)
  then have "([], Map.empty(Suc 0 \<mapsto> long_numeral))
      \<in> set (bt item_int 0 (length (''/item/'' @ long_numeral)) (''/item/'' @ long_numeral) Map.empty)"
    unfolding item_int_results by (intro exI[of _ long_numeral]) simp
  then have "bt item_int 0 (length (''/item/'' @ long_numeral)) (''/item/'' @ long_numeral) Map.empty
               \<noteq> []"
    by auto
  then have "search_at item_int (length (''/item/'' @ long_numeral)) (''/item/'' @ long_numeral)
               \<noteq> None"
    unfolding search_at_iff by (intro exI[of _ "[]"] exI[of _ "''/item/'' @ long_numeral"]) simp
  then show ?thesis by (simp add: rx_search_def)
qed

lemma item_long_capture:
  assumes "rx_search item_int (''/item/'' @ long_numeral) = Some m"
  shows "m (Suc 0) = Some long_numeral"
proof -
  from rx_search_result[OF assms] obtain u t0 t' c where
    p: "''/item/'' @ long_numeral = u @ t0" and
    r: "(t', c) \<in> set (bt item_int 0 (length (''/item/'' @ long_numeral)) t0 Map.empty)" and
    m: "\<forall>k. 0 < k \<longrightarrow> m k = c k" by blast
  from r[unfolded item_int_results] obtain s where
    len: "length t0 = length (''/item/'' @ long_numeral)" and
    t0: "t0 = ''/item/'' @ s @ t'" and
    t': "t' = [] \<or> t' = [CHR ''\<newline>'']" and c: "c = Map.empty(Suc 0 \<mapsto> s)"
    by blast
  from p len have "u = []" by (metis append_eq_append_conv append_Nil length_append add_cancel_left_left length_0_conv)
  with p t0 have eq: "long_numeral = s @ t'" by simp
  have "t' = []"
  proof (rule ccontr)
    assume "t' \<noteq> []"
    with t' have "t' = [CHR ''\<newline>'']" by simp
    with eq have "long_numeral = s @ [CHR ''\<newline>'']" by simp
    then have "CHR ''\<newline>'' \<in> set long_numeral"
      by (metis in_set_conv_decomp)
    with long_numeral_facts(4) show False by simp
  qed
  with eq c m show ?thesis by simp
qed

lemma item_long_raises:
  "WildcardRoute_match item_int [\<lparr>wname = ''n'', wtype = ''int''\<rparr>] cb
     (''/item/'' @ long_numeral) = Inl ValueError"
proof -
  from item_long_search obtain m where
    m: "rx_search item_int (''/item/'' @ long_numeral) = Some m" by auto
  have g: "ngroups item_int = Suc 0"
    by (simp add: item_int_def anchored_def)
  have v: "Wildcard_value \<lparr>wname = ''n'', wtype = ''int''\<rparr> (Some long_numeral) = Inl ValueError"
    by (simp add: Wildcard_value_def py_int_long_numeral)
  from item_long_capture[OF m] have "match_groups (Suc 0) m = [Some long_numeral]"
    by (simp add: match_groups_def)
  with m g v show ?thesis
    by (simp add: WildcardRoute_match_def enumerate_simps tuple_get_def)
qed

lemma item_pattern: "normalize_pattern ''/item/<n:int>'' = (''wildcard'', ''/item/<n:int>'')"
  by code_simp

section \<open>Resolution and the digit limit; the results of a match\<close>

lemma item_route_added:
  "Router_add example_compile Router_init ''GET'' ''/item/<n:int>'' (5::nat) =
     (None, \<lparr>literal = Map.empty,
             wildcard = [''GET'' \<mapsto> [WildcardRoute item_int [\<lparr>wname = ''n'', wtype = ''int''\<rparr>] 5]],
             regex = Map.empty\<rparr>)"
  by (simp add: Router_add_def item_pattern item_tokens(1) WildcardRoute_init_def Router_init_def
        dd_touch_def dd_get_def item_int_def)

lemma item_route_resolve:
  "WildcardRoute_match item_int [\<lparr>wname = ''n'', wtype = ''int''\<rparr>] (5::nat) path = Inl e \<Longrightarrow>
   Router_resolve (snd (Router_add example_compile Router_init ''GET'' ''/item/<n:int>'' (5::nat)))
     ''GET'' path = Inl e"
  by (simp add: item_route_added Router_resolve_def Router_resolve_non_literal_route_def)

text \<open>
  C9. The claim lets \<^verbatim>\<open>resolve\<close> raise nothing on a router built by successful calls
  of \<^verbatim>\<open>add\<close>, the conversion of an integer capture included. It does raise: one call
  of \<^verbatim>\<open>add\<close> registers \<^verbatim>\<open>/item/<n:int>\<close> for GET and raises nothing; on the path
  \<^verbatim>\<open>/item/\<close> followed by 4301 digits 1 the route matches, \<^verbatim>\<open>int\<close> refuses the capture,
  and \<^verbatim>\<open>resolve\<close> raises its \<^verbatim>\<open>ValueError\<close>. On paths of at most \<open>int_max_str_digits\<close>
  characters nothing is raised (lemma \<open>resolve_total_on_short_paths\<close>).
\<close>

theorem long_integer_segment_raises:
  "fst (Router_add example_compile Router_init ''GET'' ''/item/<n:int>'' (5::nat)) = None
   \<and> Router_resolve
        (snd (Router_add example_compile Router_init ''GET'' ''/item/<n:int>'' (5::nat)))
        ''GET'' (''/item/'' @ replicate 4301 CHR ''1'') = Inl ValueError"
proof
  show "fst (Router_add example_compile Router_init ''GET'' ''/item/<n:int>'' (5::nat)) = None"
    by (simp add: item_route_added)
  show "Router_resolve
        (snd (Router_add example_compile Router_init ''GET'' ''/item/<n:int>'' (5::nat)))
        ''GET'' (''/item/'' @ replicate 4301 CHR ''1'') = Inl ValueError"
    by (rule item_route_resolve) (rule item_long_raises[unfolded long_numeral_def])
qed









section \<open>Classification of patterns\<close>


lemma rx_search_iff:
  assumes "has_lang r P"
  shows "rx_search r p \<noteq> None \<longleftrightarrow> (\<exists>u s w. p = u @ s @ w \<and> P s)"
proof -
  have "rx_search r p \<noteq> None \<longleftrightarrow> search_at r (length p) p \<noteq> None"
    by (simp add: rx_search_def)
  also have "\<dots> \<longleftrightarrow> (\<exists>u t0. p = u @ t0 \<and> (\<exists>s w. t0 = s @ w \<and> P s))"
    unfolding search_at_iff has_lang_nonempty[OF assms] ..
  also have "\<dots> \<longleftrightarrow> (\<exists>u s w. p = u @ s @ w \<and> P s)"
    by blast
  finally show ?thesis .
qed

lemma has_lang_group_re:
  "has_lang group_re (\<lambda>s. \<exists>v. s = ''('' @ v @ '')'' \<and> CHR ''\<newline>'' \<notin> set v)"
  unfolding group_re_def
  by (rule has_lang_cong[OF has_lang_Seq[OF has_lang_Lit has_lang_Seq[OF has_lang_Star has_lang_Lit]]])
     (auto simp: list_all_iff)

lemma has_lang_wildcard_re:
  "has_lang wildcard_re
     (\<lambda>s. \<exists>v. s = ''<'' @ v @ ''>'' \<and> set v \<inter> {CHR ''<'', CHR ''>'', CHR ''/''} = {})"
  unfolding wildcard_re_def
  by (rule has_lang_cong[OF has_lang_Seq[OF has_lang_Lit has_lang_Seq[OF has_lang_Star has_lang_Lit]]])
     (auto simp: list_all_iff not_angle_slash_def)

lemma infix_iff:
  "(\<exists>u s w. p = u @ s @ w \<and> (\<exists>v. s = [a] @ v @ [b] \<and> Q v))
     \<longleftrightarrow> (\<exists>u v w. p = u @ [a] @ v @ [b] @ w \<and> Q v)"
proof
  assume "\<exists>u s w. p = u @ s @ w \<and> (\<exists>v. s = [a] @ v @ [b] \<and> Q v)"
  then obtain u v w where "p = u @ ([a] @ v @ [b]) @ w" "Q v" by blast
  then have "p = u @ [a] @ v @ [b] @ w \<and> Q v" by simp
  then show "\<exists>u v w. p = u @ [a] @ v @ [b] @ w \<and> Q v" by blast
next
  assume "\<exists>u v w. p = u @ [a] @ v @ [b] @ w \<and> Q v"
  then obtain u v w where "p = u @ [a] @ v @ [b] @ w" "Q v" by blast
  then have "p = u @ ([a] @ v @ [b]) @ w \<and> (\<exists>v'. [a] @ v @ [b] = [a] @ v' @ [b] \<and> Q v')"
    by auto
  then show "\<exists>u s w. p = u @ s @ w \<and> (\<exists>v. s = [a] @ v @ [b] \<and> Q v)" by blast
qed

lemma RegexRoute_like_iff:
  "RegexRoute_like p \<longleftrightarrow>
     (\<exists>u v w. p = u @ ''('' @ v @ '')'' @ w \<and> CHR ''\<newline>'' \<notin> set v)"
  unfolding RegexRoute_like_def rx_search_iff[OF has_lang_group_re]
  by (rule infix_iff)

lemma WildcardRoute_like_iff:
  "WildcardRoute_like p \<longleftrightarrow>
     (\<exists>u v w. p = u @ ''<'' @ v @ ''>'' @ w
        \<and> set v \<inter> {CHR ''<'', CHR ''>'', CHR ''/''} = {})"
  unfolding WildcardRoute_like_def rx_search_iff[OF has_lang_wildcard_re]
  by (rule infix_iff)

text \<open>
  C3, as the code has it. A pattern that starts with \<^verbatim>\<open>regex:\<close>, \<^verbatim>\<open>wildcard:\<close>
  or \<^verbatim>\<open>literal:\<close> is of that kind, with the prefix stripped and its content not
  inspected. Any other pattern is a regex pattern if it contains an opening parenthesis
  followed, with no newline in between, by a closing parenthesis; otherwise a
  wildcard pattern if it contains a substring matching \<^verbatim>\<open><[^<>/]*>\<close>; otherwise a
  literal one. So an unprefixed pattern with both a parenthesis group on one line and
  an angle-bracket token is a regex pattern, as \<^verbatim>\<open>/users/<id>(\d+)\<close> is; the backslash
  of the examples is the character of code 0x5C.
\<close>

theorem pattern_classification:
  "normalize_pattern pattern =
     (if startswith pattern ''regex:'' then (''regex'', drop 6 pattern)
      else if startswith pattern ''wildcard:'' then (''wildcard'', drop 9 pattern)
      else if startswith pattern ''literal:'' then (''literal'', drop 8 pattern)
      else if (\<exists>u v w. pattern = u @ ''('' @ v @ '')'' @ w \<and> CHR ''\<newline>'' \<notin> set v)
      then (''regex'', pattern)
      else if (\<exists>u v w. pattern = u @ ''<'' @ v @ ''>'' @ w
                 \<and> set v \<inter> {CHR ''<'', CHR ''>'', CHR ''/''} = {})
      then (''wildcard'', pattern)
      else (''literal'', pattern))
   \<and> normalize_pattern (''/users/('' @ [CHR 0x5C] @ ''d+)'')
       = (''regex'', ''/users/('' @ [CHR 0x5C] @ ''d+)'')
   \<and> normalize_pattern ''/users/<id>'' = (''wildcard'', ''/users/<id>'')
   \<and> normalize_pattern (''/users/<id>('' @ [CHR 0x5C] @ ''d+)'')
       = (''regex'', ''/users/<id>('' @ [CHR 0x5C] @ ''d+)'')
   \<and> normalize_pattern ''literal:/users/<id>(x)'' = (''literal'', ''/users/<id>(x)'')"
proof -
  have l: "length ''regex:'' = 6" "length ''wildcard:'' = 9" "length ''literal:'' = 8"
    by simp_all
  have general: "normalize_pattern pattern =
     (if startswith pattern ''regex:'' then (''regex'', drop 6 pattern)
      else if startswith pattern ''wildcard:'' then (''wildcard'', drop 9 pattern)
      else if startswith pattern ''literal:'' then (''literal'', drop 8 pattern)
      else if (\<exists>u v w. pattern = u @ ''('' @ v @ '')'' @ w \<and> CHR ''\<newline>'' \<notin> set v)
      then (''regex'', pattern)
      else if (\<exists>u v w. pattern = u @ ''<'' @ v @ ''>'' @ w
                 \<and> set v \<inter> {CHR ''<'', CHR ''>'', CHR ''/''} = {})
      then (''wildcard'', pattern)
      else (''literal'', pattern))"
    by (simp only: normalize_pattern_def RegexRoute_like_iff WildcardRoute_like_iff l)
  have examples:
    "normalize_pattern (''/users/('' @ [CHR 0x5C] @ ''d+)'')
       = (''regex'', ''/users/('' @ [CHR 0x5C] @ ''d+)'')"
    "normalize_pattern ''/users/<id>'' = (''wildcard'', ''/users/<id>'')"
    "normalize_pattern (''/users/<id>('' @ [CHR 0x5C] @ ''d+)'')
       = (''regex'', ''/users/<id>('' @ [CHR 0x5C] @ ''d+)'')"
    "normalize_pattern ''literal:/users/<id>(x)'' = (''literal'', ''/users/<id>(x)'')"
    by code_simp+
  from general examples show ?thesis by (intro conjI)
qed

text \<open>
  The claim as written makes every pattern with a substring \<^verbatim>\<open>(...)\<close> a regex
  pattern. \<^verbatim>\<open>RegexRoute._group_re\<close> is \<^verbatim>\<open>\(.*\)\<close>, whose dot matches no newline:
  the pattern of an opening parenthesis, a newline and a closing parenthesis is
  classified literal.
\<close>

theorem paren_group_across_lines_is_literal:
  "normalize_pattern [CHR ''('', CHR ''\<newline>'', CHR '')'']
     = (''literal'', [CHR ''('', CHR ''\<newline>'', CHR '')''])"
  by code_simp

section \<open>Regex routes and wildcard tokens\<close>


lemma fold_dict_set_map_of:
  "map_of (fold (\<lambda>(nm, index) kw. dict_set kw nm (f index)) xs kw0) nm =
     (case map_of (rev xs) nm of Some i \<Rightarrow> Some (f i) | None \<Rightarrow> map_of kw0 nm)"
proof (induction xs arbitrary: kw0)
  case Nil
  then show ?case by simp
next
  case (Cons x xs)
  obtain n i where x: "x = (n, i)" by (cases x)
  show ?case
    unfolding x by (simp add: Cons.IH map_of_dict_set map_add_def split: option.splits)
qed

text \<open>
  C8, as the code has it. The route keeps the pattern object that \<^verbatim>\<open>re.compile\<close>
  returns for the pattern as given, and matches with \<^verbatim>\<open>search\<close>. On a match the
  positional results are the groups whose number belongs to no named group, in
  ascending number, and the named results map the name of each named group to that
  group; each value is the substring the group matched, or \<^verbatim>\<open>None\<close> when the group
  took no part in the match. No value is converted.
\<close>

theorem regex_match_results:
  assumes "compile pattern = Some re"
  shows "RegexRoute_init compile pattern callback = Inr (RegexRoute re callback)
    \<and> (re_search re path = None \<longrightarrow> route_match (RegexRoute re callback) path = Inr None)
    \<and> (\<forall>m. re_search re path = Some m \<longrightarrow>
          (\<exists>kwargs. route_match (RegexRoute re callback) path =
               Inr (Some (callback,
                          map (match_group m)
                            (filter (\<lambda>i. i \<notin> snd ` set (re_groupindex re))
                               [1..<Suc (re_groups re)]),
                          kwargs))
             \<and> (\<forall>nm. map_of kwargs nm
                    = map_option (match_group m) (map_of (rev (re_groupindex re)) nm))))
    \<and> (\<forall>m i. match_group m i = (case m i of Some s \<Rightarrow> PStr s | None \<Rightarrow> PNone))"
proof (intro conjI allI impI)
  show "RegexRoute_init compile pattern callback = Inr (RegexRoute re callback)"
    using assms by (simp add: RegexRoute_init_def)
next
  assume "re_search re path = None"
  then show "route_match (RegexRoute re callback) path = Inr None"
    by (simp add: RegexRoute_match_def)
next
  fix m assume m: "re_search re path = Some m"
  define kwargs where
    "kwargs = fold (\<lambda>(nm, index) kw. dict_set kw nm (match_group m index)) (re_groupindex re) []"
  have "route_match (RegexRoute re callback) path =
               Inr (Some (callback,
                          map (match_group m)
                            (filter (\<lambda>i. i \<notin> snd ` set (re_groupindex re))
                               [1..<Suc (re_groups re)]),
                          kwargs))"
    using m by (simp add: RegexRoute_match_def kwargs_def)
  moreover have "\<forall>nm. map_of kwargs nm
                    = map_option (match_group m) (map_of (rev (re_groupindex re)) nm)"
    unfolding kwargs_def fold_dict_set_map_of by (auto split: option.splits)
  ultimately show "\<exists>kwargs. route_match (RegexRoute re callback) path =
               Inr (Some (callback,
                          map (match_group m)
                            (filter (\<lambda>i. i \<notin> snd ` set (re_groupindex re))
                               [1..<Suc (re_groups re)]),
                          kwargs))
             \<and> (\<forall>nm. map_of kwargs nm
                    = map_option (match_group m) (map_of (rev (re_groupindex re)) nm))"
    by blast
next
  fix m i show "match_group m i = (case m i of Some s \<Rightarrow> PStr s | None \<Rightarrow> PNone)"
    by (simp add: match_group_def split: option.splits)
qed

lemma user_files_match:
  "RegexRoute_match (rx_compile user_files_re) (5::nat) ''/x/user/42/a/b''
     = Some (5, [PStr ''a/b''], [(''id'', PStr ''42'')])"
  by code_simp

text \<open>
  The raw pattern \<^verbatim>\<open>/user/(?P<id>[0-9]+)/(.*)\<close> on the path \<^verbatim>\<open>/x/user/42/a/b\<close>:
  the match starts at the second character, the unnamed group 2 is the positional
  result and the named group 1 the named one, both as strings.
\<close>

theorem regex_match_results_witness:
  "example_compile ''/user/(?P<id>[0-9]+)/(.*)'' = Some (rx_compile user_files_re)
   \<and> RegexRoute_init example_compile ''/user/(?P<id>[0-9]+)/(.*)'' (5::nat)
       = Inr (RegexRoute (rx_compile user_files_re) 5)
   \<and> re_groups (rx_compile user_files_re) = 2
   \<and> re_groupindex (rx_compile user_files_re) = [(''id'', 1)]
   \<and> route_match (RegexRoute (rx_compile user_files_re) (5::nat)) ''/x/user/42/a/b''
       = Inr (Some (5, [PStr ''a/b''], [(''id'', PStr ''42'')]))"
proof -
  have c: "example_compile ''/user/(?P<id>[0-9]+)/(.*)'' = Some (rx_compile user_files_re)"
    by (simp add: example_compile_def)
  from regex_match_results[of example_compile "''/user/(?P<id>[0-9]+)/(.*)''"
      "rx_compile user_files_re" "5::nat" "''/x/user/42/a/b''", OF c]
  have "RegexRoute_init example_compile ''/user/(?P<id>[0-9]+)/(.*)'' (5::nat)
       = Inr (RegexRoute (rx_compile user_files_re) 5)"
    by (rule conjunct1)
  moreover have "re_groups (rx_compile user_files_re) = 2"
    "re_groupindex (rx_compile user_files_re) = [(''id'', 1)]"
    by (simp_all add: rx_compile_def user_files_re_def)
  ultimately show ?thesis using c by (simp add: user_files_match)
qed

text \<open>
  The claim as written makes every extracted value a string. With the raw pattern
  \<^verbatim>\<open>/(a)|/(b)\<close> and the path \<^verbatim>\<open>/b\<close> the first group takes no part in the match
  and the positional results are \<^verbatim>\<open>[None, 'b']\<close>.
\<close>

theorem unmatched_group_is_none:
  "RegexRoute_match
     (rx_compile (Alt (Seq (Lit ''/'') (Group None (Lit ''a'')))
                      (Seq (Lit ''/'') (Group None (Lit ''b''))))) (0::nat) ''/b''
     = Some (0, [PNone, PStr ''b''], [])"
  by code_simp

lemma newline_pattern:
  "normalize_pattern
     [CHR ''/'', CHR ''<'', CHR ''f'', CHR ''o'', CHR ''o'', CHR ''\<newline>'', CHR ''>'']
    = (''wildcard'',
       [CHR ''/'', CHR ''<'', CHR ''f'', CHR ''o'', CHR ''o'', CHR ''\<newline>'', CHR ''>''])"
  "compile_tokens (WildcardRoute_tokens
     [CHR ''/'', CHR ''<'', CHR ''f'', CHR ''o'', CHR ''o'', CHR ''\<newline>'', CHR ''>''])
    = Inr ([Lit ''/'', Group None (Plus (NotSet [CChr CHR ''/'']))],
           [\<lparr>wname = [CHR ''f'', CHR ''o'', CHR ''o'', CHR ''\<newline>''], wtype = ''str''\<rparr>])"
  by code_simp+

lemma newline_token:
  "Wildcard_init ''<123abc>'' = Inl (RouteError (Invalid_wildcard_name ''123abc'' ''<123abc>''))
   \<and> Wildcard_init ''<n:float>'' = Inl (RouteError (Invalid_wildcard_type ''float'' ''<n:float>''))
   \<and> Wildcard_init [CHR ''<'', CHR ''f'', CHR ''o'', CHR ''o'', CHR ''\<newline>'', CHR ''>'']
       = Inr \<lparr>wname = [CHR ''f'', CHR ''o'', CHR ''o'', CHR ''\<newline>''], wtype = ''str''\<rparr>"
  by code_simp

text \<open>
  C6. \<^verbatim>\<open>Wildcard._name_re\<close> is commented as matching identifiers, \<^verbatim>\<open>!\<close> and the
  empty name. Its \<^verbatim>\<open>$\<close> also matches before a newline that ends the name, so the
  token of the name \<^verbatim>\<open>foo\<close> followed by a newline is parsed without error and \<^verbatim>\<open>add\<close>
  registers the route, although that name is none of the three. The name \<^verbatim>\<open>123abc\<close>
  and the type \<^verbatim>\<open>float\<close> are refused with the errors the claim describes.
\<close>

theorem newline_name_is_accepted:
  "Wildcard_init ''<123abc>'' = Inl (RouteError (Invalid_wildcard_name ''123abc'' ''<123abc>''))
   \<and> Wildcard_init ''<n:float>'' = Inl (RouteError (Invalid_wildcard_type ''float'' ''<n:float>''))
   \<and> Wildcard_init [CHR ''<'', CHR ''f'', CHR ''o'', CHR ''o'', CHR ''\<newline>'', CHR ''>'']
       = Inr \<lparr>wname = [CHR ''f'', CHR ''o'', CHR ''o'', CHR ''\<newline>''], wtype = ''str''\<rparr>
   \<and> fst (Router_add compile Router_init ''GET''
             [CHR ''/'', CHR ''<'', CHR ''f'', CHR ''o'', CHR ''o'', CHR ''\<newline>'', CHR ''>'']
             callback) = None"
  using newline_token
  by (simp add: Router_add_def newline_pattern WildcardRoute_init_def Let_def)

section \<open>The wildcard parser on every token\<close>



lemma has_lang_name_body:
  "has_lang (Alt (Seq (One (NotSet [CDigit, CNotWord])) (Star (Set [CWord])))
                 (Alt (Lit ''!'') (Lit []))) valid_name"
proof (rule has_lang_cong[OF has_lang_Alt[OF has_lang_Seq[OF has_lang_One has_lang_Star]
          has_lang_Alt[OF has_lang_Lit has_lang_Lit]]])
  fix s :: string
  show "((\<exists>s1 s2. s = s1 @ s2
            \<and> (\<exists>x. s1 = [x] \<and> cclass_match (NotSet [CDigit, CNotWord]) x)
            \<and> list_all (cclass_match (Set [CWord])) s2)
         \<or> s = ''!'' \<or> s = []) = valid_name s"
  proof -
    have "(\<exists>s1 s2. s = s1 @ s2
            \<and> (\<exists>x. s1 = [x] \<and> cclass_match (NotSet [CDigit, CNotWord]) x)
            \<and> list_all (cclass_match (Set [CWord])) s2)
          = (\<exists>x s2. s = [x] @ s2 \<and> is_word x \<and> \<not> is_digit x \<and> list_all is_word s2)"
      (is "?L = ?R")
    proof
      assume ?L
      then obtain x s2 where "s = [x] @ s2" "cclass_match (NotSet [CDigit, CNotWord]) x"
        "list_all (cclass_match (Set [CWord])) s2" by blast
      then have "s = [x] @ s2 \<and> is_word x \<and> \<not> is_digit x \<and> list_all is_word s2"
        by (simp add: list_all_iff)
      then show ?R by blast
    next
      assume ?R
      then obtain x s2 where "s = [x] @ s2" "is_word x" "\<not> is_digit x" "list_all is_word s2"
        by blast
      then have "s = [x] @ s2 \<and> (\<exists>y. [x] = [y] \<and> cclass_match (NotSet [CDigit, CNotWord]) y)
            \<and> list_all (cclass_match (Set [CWord])) s2"
        by (simp add: list_all_iff)
      then show ?L by blast
    qed
    also have "\<dots> = (s \<noteq> [] \<and> is_word (hd s) \<and> \<not> is_digit (hd s) \<and> list_all is_word (tl s))"
      by (cases s) auto
    finally show ?thesis by (auto simp: valid_name_def)
  qed
qed

lemma name_re_matches:
  "rx_search name_re nm \<noteq> None \<longleftrightarrow>
     valid_name nm \<or> (\<exists>s. nm = s @ [CHR ''\<newline>''] \<and> valid_name s)"
proof -
  let ?body = "Alt (Seq (One (NotSet [CDigit, CNotWord])) (Star (Set [CWord])))
                 (Alt (Lit ''!'') (Lit []))"
  have bt_iff: "bt name_re 0 (length nm) t0 Map.empty \<noteq> [] \<longleftrightarrow>
      length t0 = length nm
      \<and> (\<exists>s t1. t0 = s @ t1 \<and> valid_name s \<and> (t1 = [] \<or> t1 = [CHR ''\<newline>'']))" for t0
  proof -
    have "bt name_re 0 (length nm) t0 Map.empty \<noteq> []
            \<longleftrightarrow> set (bt name_re 0 (length nm) t0 Map.empty) \<noteq> {}"
      by simp
    also have "\<dots> \<longleftrightarrow> length t0 = length nm
      \<and> (\<exists>s t1. t0 = s @ t1 \<and> valid_name s \<and> (t1 = [] \<or> t1 = [CHR ''\<newline>'']))"
      using has_lang_name_body
      by (auto simp: name_re_def set_bt_Seq has_lang_def bt.simps(9,10) split: if_splits)
    finally show ?thesis .
  qed
  have "rx_search name_re nm \<noteq> None \<longleftrightarrow> search_at name_re (length nm) nm \<noteq> None"
    by (simp add: rx_search_def)
  also have "\<dots> \<longleftrightarrow> (\<exists>u t0. nm = u @ t0 \<and> length t0 = length nm
      \<and> (\<exists>s t1. t0 = s @ t1 \<and> valid_name s \<and> (t1 = [] \<or> t1 = [CHR ''\<newline>''])))"
    unfolding search_at_iff bt_iff ..
  also have "\<dots> \<longleftrightarrow> (\<exists>s t1. nm = s @ t1 \<and> valid_name s \<and> (t1 = [] \<or> t1 = [CHR ''\<newline>'']))"
    (is "?C = ?D")
  proof
    assume ?C
    then obtain u t0 s t1 where "nm = u @ t0" "length t0 = length nm" "t0 = s @ t1"
      "valid_name s" "t1 = [] \<or> t1 = [CHR ''\<newline>'']" by blast
    then have "nm = s @ t1 \<and> valid_name s \<and> (t1 = [] \<or> t1 = [CHR ''\<newline>''])"
      by simp
    then show ?D by blast
  next
    assume ?D
    then have "nm = [] @ nm \<and> length nm = length nm
      \<and> (\<exists>s t1. nm = s @ t1 \<and> valid_name s \<and> (t1 = [] \<or> t1 = [CHR ''\<newline>'']))"
      by simp
    then show ?C by blast
  qed
  also have "\<dots> \<longleftrightarrow> valid_name nm \<or> (\<exists>s. nm = s @ [CHR ''\<newline>''] \<and> valid_name s)"
    (is "?A = ?B")
  proof
    assume ?A then show ?B by auto
  next
    assume ?B
    then show ?A
    proof
      assume "valid_name nm"
      then have "nm = nm @ [] \<and> valid_name nm \<and> (([]::string) = [] \<or> [] = [CHR ''\<newline>''])"
        by simp
      then show ?A by blast
    next
      assume "\<exists>s. nm = s @ [CHR ''\<newline>''] \<and> valid_name s"
      then obtain s where "nm = s @ [CHR ''\<newline>''] \<and> valid_name s
          \<and> ([CHR ''\<newline>''] = [] \<or> [CHR ''\<newline>''] = [CHR ''\<newline>''])"
        by auto
      then show ?A by blast
    qed
  qed
  finally show ?thesis .
qed


lemma types_re_keys: "set (map fst types_re) = {''str'', ''path'', ''int'', ''+int'', ''-int''}"
  by (auto simp: types_re_def)

text \<open>
  What \<^verbatim>\<open>Wildcard.__init__\<close> does on every token: the name is the part before the
  first colon, the type the part after it, \<^verbatim>\<open>str\<close> if that is empty; the name is
  accepted when it is empty, \<^verbatim>\<open>!\<close> or an identifier, and also when it is one of
  these followed by one newline.
\<close>

lemma Wildcard_init_cases:
  "Wildcard_init spec =
     (let inner = butlast (tl spec);
          nm = takeWhile (\<lambda>c. c \<noteq> CHR '':'') inner;
          ty = (if CHR '':'' \<in> set inner then tl (dropWhile (\<lambda>c. c \<noteq> CHR '':'') inner) else []);
          ty = (if ty = [] then ''str'' else ty)
      in if \<not> valid_name nm \<and> \<not> (\<exists>s. nm = s @ [CHR ''\<newline>''] \<and> valid_name s)
         then Inl (RouteError (Invalid_wildcard_name nm spec))
         else if ty \<notin> {''str'', ''path'', ''int'', ''+int'', ''-int''}
         then Inl (RouteError (Invalid_wildcard_type ty spec))
         else Inr \<lparr>wname = nm, wtype = ty\<rparr>)"
proof -
  have n: "(rx_search name_re nm = None)
             = (\<not> valid_name nm \<and> \<not> (\<exists>s. nm = s @ [CHR ''\<newline>''] \<and> valid_name s))" for nm
    using name_re_matches[of nm] by auto
  have t: "CHR '':'' \<notin> set s \<Longrightarrow> takeWhile (\<lambda>c. c \<noteq> CHR '':'') s = s" for s :: string
    by (induction s) auto
  show ?thesis
    unfolding Wildcard_init_def str_split1_def n types_re_keys
    by (simp add: Let_def t)
qed


section \<open>Supported methods after calls that did not raise\<close>

lemma dd_touch_update: "(dd_touch d k v)(k \<mapsto> x) = d(k \<mapsto> x)"
  by (auto simp: dd_touch_def fun_eq_iff split: option.splits)

lemma dd_get_touch: "dd_get (dd_touch d k v) k v = dd_get d k v"
  by (simp add: dd_touch_def dd_get_def split: option.splits)

lemma Router_add_success:
  assumes "Router_add compile r m p cb = (None, r')"
  shows "(\<exists>pat. r' = r\<lparr>literal := (literal r)(m \<mapsto> (dd_get (literal r) m Map.empty)(pat \<mapsto> cb))\<rparr>)
       \<or> (\<exists>route. r' = r\<lparr>wildcard := (wildcard r)(m \<mapsto> dd_get (wildcard r) m [] @ [route])\<rparr>)
       \<or> (\<exists>route. r' = r\<lparr>regex := (regex r)(m \<mapsto> dd_get (regex r) m [] @ [route])\<rparr>)"
proof -
  obtain pt pat where np: "normalize_pattern p = (pt, pat)" by (cases "normalize_pattern p")
  show ?thesis
  proof (cases "pt = ''literal''")
    case True
    with assms np have
      "r' = r\<lparr>literal := (literal r)(m \<mapsto> (dd_get (literal r) m Map.empty)(pat \<mapsto> cb))\<rparr>"
      by (simp add: Router_add_def Let_def dd_touch_update dd_get_touch)
    then show ?thesis by blast
  next
    case nl: False
    show ?thesis
    proof (cases "pt = ''wildcard''")
      case True
      with assms np nl obtain route where
        "r' = r\<lparr>wildcard := (wildcard r)(m \<mapsto> dd_get (wildcard r) m [] @ [route])\<rparr>"
        by (auto simp: Router_add_def Let_def dd_touch_update dd_get_touch split: sum.splits)
      then show ?thesis by blast
    next
      case False
      with assms np nl obtain route where
        "r' = r\<lparr>regex := (regex r)(m \<mapsto> dd_get (regex r) m [] @ [route])\<rparr>"
        by (auto simp: Router_add_def Let_def dd_touch_update dd_get_touch split: sum.splits)
      then show ?thesis by blast
    qed
  qed
qed

lemma Router_add_no_empty_entry:
  assumes "Router_add compile r m p cb = (None, r')" and "no_empty_entry r"
  shows "no_empty_entry r'"
proof -
  from assms(2) have
    l: "\<And>k d. literal r k = Some d \<Longrightarrow> d \<noteq> Map.empty" and
    w: "\<And>k rs. wildcard r k = Some rs \<Longrightarrow> rs \<noteq> []" and
    x: "\<And>k rs. regex r k = Some rs \<Longrightarrow> rs \<noteq> []"
    by (auto simp: no_empty_entry_def)
  from Router_add_success[OF assms(1)] consider
      pat where "r' = r\<lparr>literal := (literal r)(m \<mapsto> (dd_get (literal r) m Map.empty)(pat \<mapsto> cb))\<rparr>"
    | route where "r' = r\<lparr>wildcard := (wildcard r)(m \<mapsto> dd_get (wildcard r) m [] @ [route])\<rparr>"
    | route where "r' = r\<lparr>regex := (regex r)(m \<mapsto> dd_get (regex r) m [] @ [route])\<rparr>"
    by blast
  then show ?thesis
  proof cases
    case 1
    have "(dd_get (literal r) m Map.empty)(pat \<mapsto> cb) \<noteq> Map.empty" by simp
    with 1 l w x show ?thesis
      unfolding no_empty_entry_def by (auto split: if_splits)
  next
    case 2
    with l w x show ?thesis
      unfolding no_empty_entry_def by (auto split: if_splits)
  next
    case 3
    with l w x show ?thesis
      unfolding no_empty_entry_def by (auto split: if_splits)
  qed
qed

lemma registered_no_empty_entry: "registered compile r \<Longrightarrow> no_empty_entry r"
proof (induction rule: registered.induct)
  case registered_init
  then show ?case by (simp add: no_empty_entry_def Router_init_def)
next
  case (registered_add r m p cb r')
  then show ?case by (auto intro: Router_add_no_empty_entry)
qed

text \<open>
  On a router built by calls of \<^verbatim>\<open>add\<close> none of which raised,
  \<^verbatim>\<open>contains_method\<close> holds exactly for the methods with an entry in some tier.
\<close>

lemma contains_method_registered:
  assumes "registered compile r"
  shows "Router_contains_method r m \<longleftrightarrow>
           (\<exists>p. dd_get (literal r) m Map.empty p \<noteq> None)
           \<or> routes_for (wildcard r) m \<noteq> [] \<or> routes_for (regex r) m \<noteq> []"
proof -
  from registered_no_empty_entry[OF assms] have
    l: "\<And>d. literal r m = Some d \<Longrightarrow> d \<noteq> Map.empty" and
    w: "\<And>rs. wildcard r m = Some rs \<Longrightarrow> rs \<noteq> []" and
    x: "\<And>rs. regex r m = Some rs \<Longrightarrow> rs \<noteq> []"
    by (auto simp: no_empty_entry_def)
  have "(literal r m \<noteq> None) = (\<exists>p. dd_get (literal r) m Map.empty p \<noteq> None)"
  proof (cases "literal r m")
    case None
    then show ?thesis by (simp add: dd_get_def)
  next
    case (Some d)
    with l have "d \<noteq> Map.empty" by simp
    then have "\<exists>p. d p \<noteq> None" by (auto simp: fun_eq_iff)
    with Some show ?thesis by (simp add: dd_get_def)
  qed
  moreover have "(wildcard r m \<noteq> None) = (routes_for (wildcard r) m \<noteq> [])"
    using w by (auto simp: routes_for_def split: option.splits)
  moreover have "(regex r m \<noteq> None) = (routes_for (regex r) m \<noteq> [])"
    using x by (auto simp: routes_for_def split: option.splits)
  ultimately show ?thesis
    by (simp add: Router_contains_method_def domIff)
qed

end
